theory Spec2Isabelle
  imports Main
begin

section \<open>Values of a JSON request body\<close>

text \<open>
  \<^verbatim>\<open>const { title, description, status } = req.body;\<close> reads three fields of a parsed
  JSON object. A field is absent (\<open>undefined\<close>), \<open>null\<close>, a boolean, a number, a string,
  or an array or object. The handlers only ever observe whether a number is zero, so
  numbers are kept as integers; arrays and objects are one value, which is truthy and has
  no callable \<open>trim\<close>.

  Text is a list of characters with code points 0 to 255 (the Latin-1 range of Unicode).
\<close>

datatype jsval = JUndefined | JNull | JBool bool | JNum int | JStr string | JObj

fun truthy :: "jsval \<Rightarrow> bool" where
  "truthy JUndefined = False"
| "truthy JNull = False"
| "truthy (JBool b) = b"
| "truthy (JNum n) = (n \<noteq> 0)"
| "truthy (JStr s) = (s \<noteq> [])"
| "truthy JObj = True"

text \<open>\<^verbatim>\<open>a || b\<close>\<close>

definition js_or :: "jsval \<Rightarrow> jsval \<Rightarrow> jsval" where
  "js_or a b = (if truthy a then a else b)"

text \<open>
  \<^verbatim>\<open>String.prototype.trim\<close> removes white space and line terminators from both ends.
  In the Latin-1 range these are TAB, LF, VT, FF, CR, SPACE and NO-BREAK SPACE.
\<close>

definition js_whitespace :: "char \<Rightarrow> bool" where
  "js_whitespace c = (of_char c \<in> {9, 10, 11, 12, 13, 32, 160 :: nat})"

definition trim :: "string \<Rightarrow> string" where
  "trim s = rev (dropWhile js_whitespace (rev (dropWhile js_whitespace s)))"

record body =
  body_title :: jsval
  body_description :: jsval
  body_status :: jsval

section \<open>Errors and responses\<close>

text \<open>
  \<open>ValidationError\<close> is the 400 of \<open>validateTask\<close>, \<open>NotFoundError\<close> the 404 of the
  existence check, \<open>DatabaseError\<close> the 500 a handler sends when a statement fails, and
  \<open>InternalServerError\<close> the 500 of \<open>handleErrors\<close>, which Express calls when a
  middleware or a route handler throws. A \<open>TypeError\<close> thrown inside a database
  callback is outside Express' reach: no response is sent (\<open>UncaughtTypeError\<close>).
\<close>

datatype error =
  ValidationError | NotFoundError | DatabaseError | InternalServerError | UncaughtTypeError

fun http_status :: "error \<Rightarrow> nat option" where
  "http_status ValidationError = Some 400"
| "http_status NotFoundError = Some 404"
| "http_status DatabaseError = Some 500"
| "http_status InternalServerError = Some 500"
| "http_status UncaughtTypeError = None"

section \<open>The tasks table\<close>

text \<open>
  One row of \<^verbatim>\<open>tasks\<close>. \<open>title\<close> and \<open>description\<close> are only ever written as text
  by the handlers; \<open>status\<close> can be \<open>NULL\<close> (\<open>None\<close>). \<open>CURRENT_TIMESTAMP\<close> has a
  resolution of one second: a time stamp is the number of seconds since some origin.
\<close>

record task =
  task_id :: int
  title :: string
  description :: string
  status :: "string option"
  created_at :: nat
  updated_at :: nat

text \<open>
  The table: its rows in rowid order, and the largest rowid ever handed out
  (\<^verbatim>\<open>AUTOINCREMENT\<close> keeps it in \<open>sqlite_sequence\<close>).
\<close>

record store =
  rows :: "task list"
  seq :: int

definition empty_store :: store where
  "empty_store = \<lparr>rows = [], seq = 0\<rparr>"

definition statuses :: "string list" where
  "statuses = [''pending'', ''in progress'', ''completed'']"

text \<open>
  \<^verbatim>\<open>CHECK (status IN ('pending', 'in progress', 'completed'))\<close> on the value bound to
  the column. \<open>NULL IN (...)\<close> is \<open>NULL\<close>, which a CHECK constraint accepts; an absent
  value leaves the parameter unbound, which is \<open>NULL\<close> as well. A boolean or a number is
  bound as a number and stored as its numeral, which is none of the three texts.
\<close>

fun check_status :: "jsval \<Rightarrow> bool" where
  "check_status JNull = True"
| "check_status JUndefined = True"
| "check_status (JStr s) = (s \<in> set statuses)"
| "check_status _ = False"

fun column_of :: "jsval \<Rightarrow> string option" where
  "column_of (JStr s) = Some s"
| "column_of _ = None"

fun js_of_column :: "string option \<Rightarrow> jsval" where
  "js_of_column None = JNull"
| "js_of_column (Some s) = JStr s"

text \<open>\<^verbatim>\<open>SELECT * FROM tasks WHERE id = ?\<close> read with \<open>db.get\<close>: the first row, if any.\<close>

definition select_by_id :: "int \<Rightarrow> store \<Rightarrow> task option" where
  "select_by_id i s = find (\<lambda>t. task_id t = i) (rows s)"

text \<open>
  The rowid of the next insert: one more than the largest rowid that ever existed in the
  table. No row can be added once the largest 64-bit rowid has been used.
\<close>

definition max_rowid :: int where
  "max_rowid = 9223372036854775807"

definition last_rowid :: "store \<Rightarrow> int" where
  "last_rowid s = foldr max (map task_id (rows s)) (seq s)"

text \<open>
  \<^verbatim>\<open>INSERT INTO tasks (title, description, status) VALUES (?, ?, ?)\<close>: both time stamps
  take their default, the current time. The result is the error, or \<open>lastID\<close> and the
  new table.
\<close>

definition insert_task :: "nat \<Rightarrow> string \<Rightarrow> string \<Rightarrow> jsval \<Rightarrow> store \<Rightarrow> error + int \<times> store" where
  "insert_task now t d st s =
     (if \<not> check_status st then Inl DatabaseError
      else if max_rowid \<le> last_rowid s then Inl DatabaseError
      else
        let i = last_rowid s + 1;
            r = \<lparr>task_id = i, title = t, description = d, status = column_of st,
                 created_at = now, updated_at = now\<rparr>
        in Inr (i, \<lparr>rows = rows s @ [r], seq = i\<rparr>))"

text \<open>
  \<^verbatim>\<open>UPDATE tasks SET title = ?, description = ?, status = ?,
  updated_at = CURRENT_TIMESTAMP WHERE id = ?\<close>
\<close>

definition update_task :: "nat \<Rightarrow> int \<Rightarrow> string \<Rightarrow> string \<Rightarrow> jsval \<Rightarrow> store \<Rightarrow> error + store" where
  "update_task now i t d st s =
     (if \<not> check_status st \<and> (\<exists>r \<in> set (rows s). task_id r = i) then Inl DatabaseError
      else Inr (s\<lparr>rows := map (\<lambda>r. if task_id r = i
                                      then r\<lparr>title := t, description := d,
                                             status := column_of st, updated_at := now\<rparr>
                                      else r) (rows s)\<rparr>))"

text \<open>\<^verbatim>\<open>DELETE FROM tasks WHERE id = ?\<close>\<close>

definition delete_task :: "int \<Rightarrow> store \<Rightarrow> store" where
  "delete_task i s = s\<lparr>rows := filter (\<lambda>r. task_id r \<noteq> i) (rows s)\<rparr>"

section \<open>The API layer\<close>

text \<open>
  \<open>validateTask\<close>: \<open>None\<close> is the call of \<open>next()\<close>. A truthy title that is not a
  string has no \<open>trim\<close>: the call throws and Express answers through \<open>handleErrors\<close>.
\<close>

definition validateTask :: "body \<Rightarrow> error option" where
  "validateTask b =
     (if \<not> truthy (body_title b) then Some ValidationError
      else case body_title b of
        JStr t \<Rightarrow>
          if length (trim t) = 0 then Some ValidationError
          else if truthy (body_status b) \<and> body_status b \<notin> set (map JStr statuses)
          then Some ValidationError
          else None
      | _ \<Rightarrow> Some InternalServerError)"

text \<open>
  \<^verbatim>\<open>description?.trim() || dflt\<close>: the default for an absent, \<open>null\<close> or blank
  description; a \<open>TypeError\<close> (\<open>None\<close>) for any other value that is not a string.
\<close>

fun trim_or :: "jsval \<Rightarrow> string \<Rightarrow> string option" where
  "trim_or JUndefined dflt = Some dflt"
| "trim_or JNull dflt = Some dflt"
| "trim_or (JStr d) dflt = Some (if trim d = [] then dflt else trim d)"
| "trim_or _ dflt = None"

text \<open>
  \<^verbatim>\<open>app.post('/tasks', validateTask, ...)\<close> at time \<open>now\<close>. The destructuring default
  \<^verbatim>\<open>status = 'pending'\<close> applies to an absent status only. The payload is the row
  read back by \<open>lastID\<close>.
\<close>

definition create :: "nat \<Rightarrow> body \<Rightarrow> store \<Rightarrow> (error + task option) \<times> store" where
  "create now b s =
     (case validateTask b of
        Some e \<Rightarrow> (Inl e, s)
      | None \<Rightarrow>
          (let st = (if body_status b = JUndefined then JStr ''pending'' else body_status b)
           in (case body_title b of
                 JStr t \<Rightarrow>
                   (case trim_or (body_description b) [] of
                      None \<Rightarrow> (Inl InternalServerError, s)
                    | Some d \<Rightarrow>
                        (case insert_task now (trim t) d st s of
                           Inl e \<Rightarrow> (Inl e, s)
                         | Inr (lastID, s') \<Rightarrow> (Inr (select_by_id lastID s'), s')))
               | _ \<Rightarrow> (Inl InternalServerError, s))))"

text \<open>
  \<^verbatim>\<open>app.put('/tasks/:id', validateTask, ...)\<close> at time \<open>now\<close>; \<open>i\<close> is the integer the
  path names. The parameters of the UPDATE are computed inside the callback of the
  existence check, where a \<open>TypeError\<close> is not caught.
\<close>

definition update :: "nat \<Rightarrow> int \<Rightarrow> body \<Rightarrow> store \<Rightarrow> (error + task option) \<times> store" where
  "update now i b s =
     (case validateTask b of
        Some e \<Rightarrow> (Inl e, s)
      | None \<Rightarrow>
          (case select_by_id i s of
             None \<Rightarrow> (Inl NotFoundError, s)
           | Some existingTask \<Rightarrow>
               (case body_title b of
                  JStr t \<Rightarrow>
                    (case trim_or (body_description b) (description existingTask) of
                       None \<Rightarrow> (Inl UncaughtTypeError, s)
                     | Some d \<Rightarrow>
                         (case update_task now i (trim t) d
                                 (js_or (body_status b) (js_of_column (status existingTask))) s of
                            Inl e \<Rightarrow> (Inl e, s)
                          | Inr s' \<Rightarrow> (Inr (select_by_id i s'), s')))
                | _ \<Rightarrow> (Inl UncaughtTypeError, s))))"

text \<open>\<^verbatim>\<open>app.delete('/tasks/:id', ...)\<close>: the payload is the row read before the DELETE.\<close>

definition delete :: "int \<Rightarrow> store \<Rightarrow> (error + task) \<times> store" where
  "delete i s =
     (case select_by_id i s of
        None \<Rightarrow> (Inl NotFoundError, s)
      | Some existingTask \<Rightarrow> (Inr existingTask, delete_task i s))"

section \<open>Listing\<close>

text \<open>
  SQLite's \<open>LIKE\<close> with its defaults. The comparison reads the pattern and the text as
  zero-terminated strings, so each ends at its first U+0000. In the pattern \<open>%\<close> stands
  for any run of characters, \<open>_\<close> for any one character, and every other character for
  itself, where the upper-case ASCII letters count as equal to their lower-case forms.
  No escape character is declared.
\<close>

definition sqlite_lower :: "char \<Rightarrow> char" where
  "sqlite_lower c =
     (let n = of_char c :: nat in if 65 \<le> n \<and> n \<le> 90 then char_of (n + 32) else c)"

definition upto_nul :: "string \<Rightarrow> string" where
  "upto_nul z = takeWhile (\<lambda>c. c \<noteq> CHR 0x00) z"

fun patternCompare :: "string \<Rightarrow> string \<Rightarrow> bool" where
  "patternCompare [] x = (x = [])"
| "patternCompare (p # ps) [] = (p = CHR ''%'' \<and> patternCompare ps [])"
| "patternCompare (p # ps) (c # cs) =
     (if p = CHR ''%'' then patternCompare ps (c # cs) \<or> patternCompare (p # ps) cs
      else (p = CHR ''_'' \<or> sqlite_lower p = sqlite_lower c) \<and> patternCompare ps cs)"

definition like :: "string \<Rightarrow> string \<Rightarrow> bool" where
  "like pattern x = patternCompare (upto_nul pattern) (upto_nul x)"

text \<open>
  \<^verbatim>\<open>ORDER BY created_at DESC\<close>. The order of rows with equal time stamps is left to
  the engine; its sorter keeps them in the order of the scan, which is rowid order.
\<close>

definition order_by_created_at_desc :: "task list \<Rightarrow> task list" where
  "order_by_created_at_desc ts = sort_key (\<lambda>t. - int (created_at t)) ts"

text \<open>
  \<^verbatim>\<open>app.get('/tasks', ...)\<close> with the query parameters \<open>status\<close> and \<open>search\<close>,
  each absent or a string. The two conditions are joined by \<open>AND\<close>; a row whose status
  is \<open>NULL\<close> fails \<^verbatim>\<open>status = ?\<close>.
\<close>

definition status_condition :: "string option \<Rightarrow> task \<Rightarrow> bool" where
  "status_condition status_param t =
     (case status_param of
        None \<Rightarrow> True
      | Some st \<Rightarrow> if st \<noteq> [] \<and> st \<noteq> ''all'' then status t = Some st else True)"

definition search_condition :: "string option \<Rightarrow> task \<Rightarrow> bool" where
  "search_condition search_param t =
     (case search_param of
        None \<Rightarrow> True
      | Some q \<Rightarrow>
          if q \<noteq> []
          then like (''%'' @ q @ ''%'') (title t) \<or> like (''%'' @ q @ ''%'') (description t)
          else True)"

definition list_tasks :: "string option \<Rightarrow> string option \<Rightarrow> store \<Rightarrow> task list" where
  "list_tasks status_param search_param s =
     order_by_created_at_desc
       (filter (\<lambda>t. status_condition status_param t \<and> search_condition search_param t)
          (rows s))"

section \<open>The client's filtered view\<close>

text \<open>
  \<^verbatim>\<open>String.prototype.toLowerCase\<close> on the Latin-1 range: the ASCII capitals and the
  capitals from U+00C0 to U+00DE, the multiplication sign U+00D7 apart, move up by 32.
\<close>

definition toLowerCase_char :: "char \<Rightarrow> char" where
  "toLowerCase_char c =
     (let n = of_char c :: nat
      in if (65 \<le> n \<and> n \<le> 90) \<or> (192 \<le> n \<and> n \<le> 222 \<and> n \<noteq> 215)
         then char_of (n + 32) else c)"

definition toLowerCase :: "string \<Rightarrow> string" where
  "toLowerCase s = map toLowerCase_char s"

text \<open>\<^verbatim>\<open>text.includes(needle)\<close>: the needle occurs in the text.\<close>

fun starts_with :: "string \<Rightarrow> string \<Rightarrow> bool" where
  "starts_with x [] = True"
| "starts_with [] (c # cs) = False"
| "starts_with (a # x) (c # cs) = (a = c \<and> starts_with x cs)"

fun str_includes :: "string \<Rightarrow> string \<Rightarrow> bool" where
  "str_includes [] needle = (needle = [])"
| "str_includes (a # x) needle = (starts_with (a # x) needle \<or> str_includes x needle)"

text \<open>The filter effect of \<open>App\<close>: the value it passes to \<open>setFilteredTasks\<close>.\<close>

definition filteredTasks :: "task list \<Rightarrow> string \<Rightarrow> string \<Rightarrow> task list" where
  "filteredTasks tasks statusFilter searchTerm =
     (let filtered = tasks;
          filtered = (if statusFilter \<noteq> ''all''
                      then filter (\<lambda>task. status task = Some statusFilter) filtered
                      else filtered);
          filtered = (if searchTerm \<noteq> []
                      then filter (\<lambda>task.
                             str_includes (toLowerCase (title task)) (toLowerCase searchTerm) \<or>
                             str_includes (toLowerCase (description task)) (toLowerCase searchTerm))
                             filtered
                      else filtered)
      in filtered)"

section \<open>The listing contract\<close>

text \<open>
  These three definitions follow the words of the specification, not the code: a search
  term is matched as a substring of the title or of the description, ignoring the case
  of the ASCII letters; a status is matched exactly, and an absent status or \<open>all\<close>
  selects every task.
\<close>

definition contains_ci :: "string \<Rightarrow> string \<Rightarrow> bool" where
  "contains_ci x q = str_includes (map sqlite_lower x) (map sqlite_lower q)"

definition spec_status_filter :: "string option \<Rightarrow> task \<Rightarrow> bool" where
  "spec_status_filter status_param t =
     (case status_param of None \<Rightarrow> True | Some v \<Rightarrow> v = ''all'' \<or> status t = Some v)"

definition spec_search_filter :: "string option \<Rightarrow> task \<Rightarrow> bool" where
  "spec_search_filter search_param t =
     (case search_param of
        None \<Rightarrow> True
      | Some q \<Rightarrow> contains_ci (title t) q \<or> contains_ci (description t) q)"

section \<open>The table invariant\<close>

text \<open>
  What holds of every table the handlers can produce from the empty one: the ids are
  positive, increasing along the rows (so unique) and at most the rowid counter, every
  title is non-empty, and every status is \<open>NULL\<close> or one of the three values.
\<close>

definition store_invariant :: "store \<Rightarrow> bool" where
  "store_invariant s =
     (0 \<le> seq s \<and> sorted_wrt (<) (map task_id (rows s)) \<and>
      list_all (\<lambda>t. 0 < task_id t \<and> task_id t \<le> seq s \<and> title t \<noteq> [] \<and>
                     check_status (js_of_column (status t))) (rows s))"

section \<open>Sample data\<close>

text \<open>
  The table after \<^verbatim>\<open>POST /tasks {title: "X", description: "old"}\<close> at time 5 on an
  empty table, and a request body builder.
\<close>

definition sample_task :: task where
  "sample_task = \<lparr>task_id = 1, title = ''X'', description = ''old'',
                    status = Some ''pending'', created_at = 5, updated_at = 5\<rparr>"

definition sample_store :: store where
  "sample_store = \<lparr>rows = [sample_task], seq = 1\<rparr>"

definition request :: "jsval \<Rightarrow> jsval \<Rightarrow> jsval \<Rightarrow> body" where
  "request t d st = \<lparr>body_title = t, body_description = d, body_status = st\<rparr>"

text \<open>The sample table after a second task was created in the same second.\<close>

definition other_task :: task where
  "other_task = \<lparr>task_id = 2, title = ''Z'', description = [],
                   status = Some ''completed'', created_at = 5, updated_at = 5\<rparr>"

definition two_store :: store where
  "two_store = \<lparr>rows = [sample_task, other_task], seq = 2\<rparr>"

text \<open>The empty table after creating \<open>A\<close>, \<open>B\<close> and \<open>C\<close>, in this order, at the given times.\<close>

definition three_created :: "nat \<Rightarrow> nat \<Rightarrow> nat \<Rightarrow> store" where
  "three_created tA tB tC =
     (let s1 = snd (create tA (request (JStr ''A'') JUndefined JUndefined) empty_store);
          s2 = snd (create tB (request (JStr ''B'') JUndefined JUndefined) s1)
      in snd (create tC (request (JStr ''C'') JUndefined JUndefined) s2))"

text \<open>A table of three tasks, two of them about milk.\<close>

definition milk_task :: task where
  "milk_task = \<lparr>task_id = 1, title = ''Buy MILK'', description = [],
                  status = Some ''pending'', created_at = 5, updated_at = 5\<rparr>"

definition dog_task :: task where
  "dog_task = \<lparr>task_id = 2, title = ''Walk dog'', description = ''then get Milk'',
                 status = Some ''completed'', created_at = 6, updated_at = 8\<rparr>"

definition book_task :: task where
  "book_task = \<lparr>task_id = 3, title = ''Read'', description = ''a book'',
                  status = Some ''in progress'', created_at = 7, updated_at = 7\<rparr>"

definition milk_store :: store where
  "milk_store = \<lparr>rows = [milk_task, dog_task, book_task], seq = 3\<rparr>"

section \<open>Evaluation rules\<close>

lemmas eval_defs =
  request_def sample_store_def sample_task_def other_task_def two_store_def empty_store_def
  create_def update_def delete_def validateTask_def trim_def js_whitespace_def statuses_def
  select_by_id_def insert_task_def update_task_def delete_task_def js_or_def
  last_rowid_def max_rowid_def

lemma sample_store_reachable:
  "create 5 (request (JStr ''X'') (JStr ''old'') JUndefined) empty_store
     = (Inr (Some sample_task), sample_store)"
  by (simp add: eval_defs)

section \<open>Validation\<close>

lemma validateTask_rejects:
  assumes "\<not> truthy (body_title b) \<or>
           (\<exists>t. body_title b = JStr t \<and>
                (trim t = [] \<or>
                 (truthy (body_status b) \<and> body_status b \<notin> set (map JStr statuses))))"
  shows "validateTask b = Some ValidationError"
  using assms by (auto simp: validateTask_def)

text \<open>
  C1, as stated, fails: a status supplied as the empty string is none of the three valid
  values, yet \<^verbatim>\<open>PUT /tasks/1 {title: "T", status: ""}\<close> passes validation and modifies
  the stored record.
\<close>

theorem empty_status_update_counterexample:
  "JStr '''' \<notin> set (map JStr statuses) \<and>
   update 6 1 (request (JStr ''T'') JUndefined (JStr '''')) sample_store
     = (Inr (Some (sample_task\<lparr>title := ''T'', updated_at := 6\<rparr>)),
        \<lparr>rows = [sample_task\<lparr>title := ''T'', updated_at := 6\<rparr>], seq = 1\<rparr>)"
  by (simp add: eval_defs)

text \<open>
  C1, amended: for every create or update request whose title is a string or a falsy
  value, if the title is missing, empty or whitespace-only, or if a truthy status (so
  not the empty string) is supplied that is not one of the three valid values, the
  operation fails with a validation error (HTTP 400) and the table is returned as it
  was: no statement is run, no record is persisted or modified.
\<close>

theorem validation_error_before_mutation:
  assumes "\<not> truthy (body_title b) \<or>
           (\<exists>t. body_title b = JStr t \<and>
                (trim t = [] \<or>
                 (truthy (body_status b) \<and> body_status b \<notin> set (map JStr statuses))))"
  shows "create now b s = (Inl ValidationError, s) \<and>
         update now i b s = (Inl ValidationError, s) \<and>
         http_status ValidationError = Some 400"
  using validateTask_rejects [OF assms] by (simp add: create_def update_def)

theorem validation_error_before_mutation_witness:
  "create 7 (request (JStr '' '') (JStr ''d'') (JStr ''completed'')) sample_store
     = (Inl ValidationError, sample_store) \<and>
   update 7 1 (request (JStr ''T'') (JStr ''d'') (JStr ''in_progress'')) sample_store
     = (Inl ValidationError, sample_store)"
  using
    validation_error_before_mutation
      [of "request (JStr '' '') (JStr ''d'') (JStr ''completed'')" 7 sample_store 1]
    validation_error_before_mutation
      [of "request (JStr ''T'') (JStr ''d'') (JStr ''in_progress'')" 7 sample_store 1]
  by (simp add: request_def trim_def js_whitespace_def statuses_def)

section \<open>Create\<close>

lemma foldr_max_ge: "(a::int) \<le> foldr max xs a"
  by (induction xs) auto

lemma foldr_max_mem: "(x::int) \<in> set xs \<Longrightarrow> x \<le> foldr max xs a"
  by (induction xs) (auto simp: max_def)

lemma last_rowid_seq: "seq s \<le> last_rowid s"
  by (simp add: last_rowid_def foldr_max_ge)

lemma last_rowid_row: "t \<in> set (rows s) \<Longrightarrow> task_id t \<le> last_rowid s"
  by (simp add: last_rowid_def foldr_max_mem)

lemma find_snoc_new:
  "\<forall>t \<in> set xs. task_id t \<noteq> i \<Longrightarrow> task_id r = i \<Longrightarrow>
   find (\<lambda>t. task_id t = i) (xs @ [r]) = Some r"
  by (induction xs) auto

lemma validateTask_None:
  "validateTask b = None \<longleftrightarrow>
     (\<exists>x. body_title b = JStr x \<and> trim x \<noteq> [] \<and>
          (\<not> truthy (body_status b) \<or> body_status b \<in> set (map JStr statuses)))"
  by (cases "body_title b") (auto simp: validateTask_def trim_def)

lemma check_status_js_of_column:
  "check_status st \<Longrightarrow> st \<noteq> JUndefined \<Longrightarrow> js_of_column (column_of st) = st"
  by (cases st) auto

lemma trim_or_Nil: "trim_or v [] = Some d \<Longrightarrow> d = (case v of JStr x \<Rightarrow> trim x | _ \<Rightarrow> [])"
  by (cases v) (auto split: if_splits)

lemma create_InrD:
  assumes "create now b s = (Inr r, s')"
  shows "\<exists>x d st. body_title b = JStr x \<and> trim x \<noteq> [] \<and>
           trim_or (body_description b) [] = Some d \<and>
           st = (if body_status b = JUndefined then JStr ''pending'' else body_status b) \<and>
           check_status st \<and> last_rowid s < max_rowid \<and>
           r = Some \<lparr>task_id = last_rowid s + 1, title = trim x, description = d,
                     status = column_of st, created_at = now, updated_at = now\<rparr> \<and>
           s' = \<lparr>rows = rows s @ [\<lparr>task_id = last_rowid s + 1, title = trim x, description = d,
                     status = column_of st, created_at = now, updated_at = now\<rparr>],
                 seq = last_rowid s + 1\<rparr>"
proof -
  from assms obtain x where x: "body_title b = JStr x" "trim x \<noteq> []" and v: "validateTask b = None"
    by (cases "validateTask b") (auto simp: create_def validateTask_None)
  from assms v x obtain d where d: "trim_or (body_description b) [] = Some d"
    by (cases "trim_or (body_description b) []") (auto simp: create_def)
  let ?st = "if body_status b = JUndefined then JStr ''pending'' else body_status b"
  from assms v x d have ins: "check_status ?st" "last_rowid s < max_rowid"
    by (auto simp: create_def insert_task_def Let_def split: if_splits)
  have fresh: "\<forall>t \<in> set (rows s). task_id t \<noteq> last_rowid s + 1"
    using last_rowid_row by fastforce
  from assms v x d ins show ?thesis
    by (simp add: create_def insert_task_def Let_def select_by_id_def find_snoc_new [OF fresh]
          del: check_status.simps split: if_splits)
qed

lemma create_succeeds:
  assumes "body_title b = JStr x" "trim x \<noteq> []"
    and "body_status b = JUndefined \<or> body_status b = JNull \<or> body_status b \<in> set (map JStr statuses)"
    and "trim_or (body_description b) [] = Some d"
    and "last_rowid s < max_rowid"
  shows "\<exists>t s'. create now b s = (Inr (Some t), s')"
proof -
  have v: "validateTask b = None"
    using assms(1-3) by (auto simp: validateTask_None)
  have fresh: "\<forall>t \<in> set (rows s). task_id t \<noteq> last_rowid s + 1"
    using last_rowid_row by fastforce
  have c: "check_status (if body_status b = JUndefined then JStr ''pending'' else body_status b)"
    using assms(3) by (auto simp: statuses_def)
  show ?thesis
    using v assms c
    by (simp add: create_def insert_task_def Let_def select_by_id_def find_snoc_new [OF fresh]
          del: check_status.simps)
qed

text \<open>
  C2: a successful create returns the stored record \<open>t\<close>: its title is the trimmed title
  of the request, its description the trimmed description (empty when none is given),
  its status the supplied one, or \<open>pending\<close> when the request has no status, its id is
  new (no row has it and it is above every id handed out before), both time stamps are
  the current time, and it is the row appended to the table and read back by its id.
  In particular creating \<^verbatim>\<open>{title: "Buy milk"}\<close> succeeds on any table with a rowid
  left and yields a record with status \<open>pending\<close>.
\<close>

theorem create_stores_record:
  "(create now b s = (Inr r, s') \<longrightarrow>
      (\<exists>t x. r = Some t \<and> body_title b = JStr x \<and> title t = trim x \<and>
         description t = (case body_description b of JStr d \<Rightarrow> trim d | _ \<Rightarrow> []) \<and>
         js_of_column (status t)
           = (if body_status b = JUndefined then JStr ''pending'' else body_status b) \<and>
         task_id t \<notin> task_id ` set (rows s) \<and> seq s < task_id t \<and>
         created_at t = now \<and> updated_at t = now \<and>
         rows s' = rows s @ [t] \<and> select_by_id (task_id t) s' = Some t)) \<and>
   (last_rowid s < max_rowid \<longrightarrow>
      (\<exists>t s'. create now (request (JStr ''Buy milk'') JUndefined JUndefined) s = (Inr (Some t), s') \<and>
         title t = ''Buy milk'' \<and> status t = Some ''pending''))"
proof (intro conjI impI)
  assume a: "create now b s = (Inr r, s')"
  from create_InrD [OF a] obtain x d st where
    x: "body_title b = JStr x" and d: "trim_or (body_description b) [] = Some d" and
    st: "st = (if body_status b = JUndefined then JStr ''pending'' else body_status b)"
        "check_status st" and
    r: "r = Some \<lparr>task_id = last_rowid s + 1, title = trim x, description = d,
                     status = column_of st, created_at = now, updated_at = now\<rparr>" and
    s': "s' = \<lparr>rows = rows s @ [\<lparr>task_id = last_rowid s + 1, title = trim x, description = d,
                     status = column_of st, created_at = now, updated_at = now\<rparr>],
                 seq = last_rowid s + 1\<rparr>"
    by blast
  let ?t = "\<lparr>task_id = last_rowid s + 1, title = trim x, description = d,
                     status = column_of st, created_at = now, updated_at = now\<rparr>"
  have fresh: "\<forall>t \<in> set (rows s). task_id t \<noteq> last_rowid s + 1"
    using last_rowid_row by fastforce
  have "st \<noteq> JUndefined" using st(1) by auto
  then have col: "js_of_column (column_of st) = st"
    using st(2) by (rule check_status_js_of_column [rotated])
  have "r = Some ?t \<and> body_title b = JStr x \<and> title ?t = trim x \<and>
         description ?t = (case body_description b of JStr d \<Rightarrow> trim d | _ \<Rightarrow> []) \<and>
         js_of_column (status ?t)
           = (if body_status b = JUndefined then JStr ''pending'' else body_status b) \<and>
         task_id ?t \<notin> task_id ` set (rows s) \<and> seq s < task_id ?t \<and>
         created_at ?t = now \<and> updated_at ?t = now \<and>
         rows s' = rows s @ [?t] \<and> select_by_id (task_id ?t) s' = Some ?t"
    using r x s' col st(1) trim_or_Nil [OF d] fresh last_rowid_seq [of s]
    by (auto simp: select_by_id_def find_snoc_new)
  then show "\<exists>t x. r = Some t \<and> body_title b = JStr x \<and> title t = trim x \<and>
         description t = (case body_description b of JStr d \<Rightarrow> trim d | _ \<Rightarrow> []) \<and>
         js_of_column (status t)
           = (if body_status b = JUndefined then JStr ''pending'' else body_status b) \<and>
         task_id t \<notin> task_id ` set (rows s) \<and> seq s < task_id t \<and>
         created_at t = now \<and> updated_at t = now \<and>
         rows s' = rows s @ [t] \<and> select_by_id (task_id t) s' = Some t"
    by blast
next
  assume room: "last_rowid s < max_rowid"
  let ?b = "request (JStr ''Buy milk'') JUndefined JUndefined"
  have "\<exists>t s'. create now ?b s = (Inr (Some t), s')"
    by (rule create_succeeds [where x = "''Buy milk''" and d = "[]"])
       (simp_all add: request_def trim_def js_whitespace_def room)
  then obtain t s' where c: "create now ?b s = (Inr (Some t), s')" by blast
  from create_InrD [OF c] have "title t = ''Buy milk'' \<and> status t = Some ''pending''"
    by (auto simp: request_def trim_def js_whitespace_def)
  with c show "\<exists>t s'. create now ?b s = (Inr (Some t), s') \<and>
         title t = ''Buy milk'' \<and> status t = Some ''pending''"
    by blast
qed

theorem create_stores_record_witness:
  "create 5 (request (JStr '' Buy milk '') (JStr '' 2 litres '') (JStr ''completed'')) sample_store
     = (Inr (Some \<lparr>task_id = 2, title = ''Buy milk'', description = ''2 litres'',
                    status = Some ''completed'', created_at = 5, updated_at = 5\<rparr>),
        \<lparr>rows = [sample_task,
                  \<lparr>task_id = 2, title = ''Buy milk'', description = ''2 litres'',
                    status = Some ''completed'', created_at = 5, updated_at = 5\<rparr>], seq = 2\<rparr>) \<and>
   (\<exists>t s'. create 9 (request (JStr ''Buy milk'') JUndefined JUndefined) empty_store
              = (Inr (Some t), s') \<and>
         title t = ''Buy milk'' \<and> status t = Some ''pending'')"
  using create_stores_record
    [of 5 "request (JStr '' Buy milk '') (JStr '' 2 litres '') (JStr ''completed'')" sample_store
        "Some \<lparr>task_id = 2, title = ''Buy milk'', description = ''2 litres'',
                    status = Some ''completed'', created_at = 5, updated_at = 5\<rparr>"
        "\<lparr>rows = [sample_task,
                  \<lparr>task_id = 2, title = ''Buy milk'', description = ''2 litres'',
                    status = Some ''completed'', created_at = 5, updated_at = 5\<rparr>], seq = 2\<rparr>"]
    create_stores_record [of 9 "request (JStr ''Buy milk'') JUndefined JUndefined" empty_store]
  by (simp add: eval_defs)

section \<open>Update\<close>

lemma find_map_same:
  assumes "\<And>r. task_id (f r) = task_id r"
  shows "find (\<lambda>t. task_id t = i) (map (\<lambda>r. if task_id r = i then f r else r) xs)
           = map_option f (find (\<lambda>t. task_id t = i) xs)"
  by (induction xs) (auto simp: assms)

lemma find_map_other:
  assumes "\<And>r. task_id (f r) = task_id r" "j \<noteq> i"
  shows "find (\<lambda>t. task_id t = j) (map (\<lambda>r. if task_id r = i then f r else r) xs)
           = find (\<lambda>t. task_id t = j) xs"
  by (induction xs) (auto simp: assms)

lemma filter_map_other:
  "filter (\<lambda>r. task_id r \<noteq> i) (map (\<lambda>r. if task_id r = i then f r else r) xs)
     = filter (\<lambda>r. task_id r \<noteq> i) xs" if "\<And>r. task_id (f r) = task_id r"
  by (induction xs) (auto simp: that)

lemma select_by_id_mem: "select_by_id i s = Some t \<Longrightarrow> t \<in> set (rows s) \<and> task_id t = i"
  by (auto simp: select_by_id_def find_Some_iff)

lemma update_InrD:
  assumes "update now i b s = (Inr r, s')"
  shows "\<exists>x old d st. body_title b = JStr x \<and> trim x \<noteq> [] \<and>
           (\<not> truthy (body_status b) \<or> body_status b \<in> set (map JStr statuses)) \<and>
           select_by_id i s = Some old \<and>
           trim_or (body_description b) (description old) = Some d \<and>
           st = js_or (body_status b) (js_of_column (status old)) \<and> check_status st \<and>
           r = Some (old\<lparr>title := trim x, description := d, status := column_of st,
                          updated_at := now\<rparr>) \<and>
           s' = s\<lparr>rows := map (\<lambda>r. if task_id r = i
                                      then r\<lparr>title := trim x, description := d,
                                             status := column_of st, updated_at := now\<rparr>
                                      else r) (rows s)\<rparr>"
proof -
  from assms obtain x where v: "validateTask b = None" and x: "body_title b = JStr x" "trim x \<noteq> []"
    and vs: "\<not> truthy (body_status b) \<or> body_status b \<in> set (map JStr statuses)"
    by (cases "validateTask b") (auto simp: update_def validateTask_None)
  from assms v obtain old where old: "select_by_id i s = Some old"
    by (cases "select_by_id i s") (auto simp: update_def)
  from assms v x old obtain d where d: "trim_or (body_description b) (description old) = Some d"
    by (cases "trim_or (body_description b) (description old)") (auto simp: update_def)
  let ?st = "js_or (body_status b) (js_of_column (status old))"
  have ex: "\<exists>r\<in>set (rows s). task_id r = i"
    using select_by_id_mem [OF old] by blast
  from assms v x old d ex have c: "check_status ?st"
    by (auto simp: update_def update_task_def split: if_splits)
  have sel: "select_by_id i (s\<lparr>rows := map (\<lambda>r. if task_id r = i
                                      then r\<lparr>title := trim x, description := d,
                                             status := column_of ?st, updated_at := now\<rparr>
                                      else r) (rows s)\<rparr>)
      = Some (old\<lparr>title := trim x, description := d, status := column_of ?st, updated_at := now\<rparr>)"
    using old unfolding select_by_id_def
    by (simp add: find_map_same [where f = "\<lambda>r. r\<lparr>title := trim x, description := d,
                                             status := column_of ?st, updated_at := now\<rparr>"])
  from assms v x old d c sel vs show ?thesis
    by (simp add: update_def update_task_def del: check_status.simps)
qed

lemma update_succeeds:
  assumes "body_title b = JStr x" "trim x \<noteq> []"
    and "\<not> truthy (body_status b) \<or> body_status b \<in> set (map JStr statuses)"
    and "select_by_id i s = Some old"
    and "trim_or (body_description b) (description old) = Some d"
    and "check_status (js_or (body_status b) (js_of_column (status old)))"
  shows "\<exists>t s'. update now i b s = (Inr (Some t), s')"
proof -
  let ?st = "js_or (body_status b) (js_of_column (status old))"
  have v: "validateTask b = None"
    using assms(1-3) by (auto simp: validateTask_None)
  have sel: "select_by_id i (s\<lparr>rows := map (\<lambda>r. if task_id r = i
                                      then r\<lparr>title := trim x, description := d,
                                             status := column_of ?st, updated_at := now\<rparr>
                                      else r) (rows s)\<rparr>)
      = Some (old\<lparr>title := trim x, description := d, status := column_of ?st, updated_at := now\<rparr>)"
    using assms(4) unfolding select_by_id_def
    by (simp add: find_map_same [where f = "\<lambda>r. r\<lparr>title := trim x, description := d,
                                             status := column_of ?st, updated_at := now\<rparr>"])
  show ?thesis
    using v assms sel by (simp add: update_def update_task_def del: check_status.simps)
qed

lemma column_of_js_or:
  assumes "\<not> truthy st \<or> st \<in> set (map JStr statuses)"
  shows "column_of (js_or st (js_of_column c))
           = (case st of JStr v \<Rightarrow> if v = [] then c else Some v | _ \<Rightarrow> c)"
  using assms by (cases st; cases c) (auto simp: js_or_def)

lemma trim_or_cases:
  "trim_or v dflt = Some d \<Longrightarrow>
     d = (case v of JStr x \<Rightarrow> if trim x = [] then dflt else trim x | _ \<Rightarrow> dflt)"
  by (cases v) auto

text \<open>
  C3 says that a successful update overwrites the description when one is supplied. The
  parameter of the UPDATE is \<^verbatim>\<open>description?.trim() || existingTask.description\<close>, so a
  description supplied as the empty string falls back to the stored one:
  \<^verbatim>\<open>PUT /tasks/1 {title: "T", description: "", status: "completed"}\<close> succeeds and the
  stored description stays \<open>old\<close>, where the claim has it overwritten with the empty
  string. A create stores the empty string for the same value.
\<close>

theorem blank_description_update_keeps_old:
  "update 6 1 (request (JStr ''T'') (JStr '''') (JStr ''completed'')) sample_store
     = (Inr (Some (sample_task\<lparr>title := ''T'', status := Some ''completed'', updated_at := 6\<rparr>)),
        \<lparr>rows = [sample_task\<lparr>title := ''T'', status := Some ''completed'', updated_at := 6\<rparr>],
          seq = 1\<rparr>) \<and>
   description (sample_task\<lparr>title := ''T'', status := Some ''completed'', updated_at := 6\<rparr>)
     = ''old'' \<and>
   trim '''' = [] \<and>
   fst (create 6 (request (JStr ''T'') (JStr '''') (JStr ''completed'')) sample_store)
     = Inr (Some \<lparr>task_id = 2, title = ''T'', description = [], status = Some ''completed'',
                   created_at = 6, updated_at = 6\<rparr>)"
  by (simp add: eval_defs)

text \<open>
  The values a successful update stores, as the handler computes them: the trimmed
  title; the supplied status when it is a non-empty string, else the stored one; the
  trimmed description when it is a string that is not blank, else the stored one (the
  fallback that the update above runs into); the current time in \<open>updated_at\<close>.
\<close>

lemma update_stored_values:
  assumes "update now i b s = (Inr r, s')"
  shows "\<exists>old x t. select_by_id i s = Some old \<and> body_title b = JStr x \<and>
           r = Some t \<and> select_by_id i s' = Some t \<and>
           title t = trim x \<and>
           status t = (case body_status b of
                         JStr v \<Rightarrow> if v = [] then status old else Some v
                       | _ \<Rightarrow> status old) \<and>
           description t = (case body_description b of
                              JStr d \<Rightarrow> if trim d = [] then description old else trim d
                            | _ \<Rightarrow> description old) \<and>
           updated_at t = now"
proof -
  from update_InrD [OF assms] obtain x old d st where
    x: "body_title b = JStr x" and
    vs: "\<not> truthy (body_status b) \<or> body_status b \<in> set (map JStr statuses)" and
    old: "select_by_id i s = Some old" and
    d: "trim_or (body_description b) (description old) = Some d" and
    st: "st = js_or (body_status b) (js_of_column (status old))" and
    r: "r = Some (old\<lparr>title := trim x, description := d, status := column_of st,
                          updated_at := now\<rparr>)" and
    s': "s' = s\<lparr>rows := map (\<lambda>r. if task_id r = i
                                      then r\<lparr>title := trim x, description := d,
                                             status := column_of st, updated_at := now\<rparr>
                                      else r) (rows s)\<rparr>"
    by blast
  let ?t = "old\<lparr>title := trim x, description := d, status := column_of st, updated_at := now\<rparr>"
  have sel: "select_by_id i s' = Some ?t"
    using old unfolding select_by_id_def s'
    by (simp add: find_map_same [where f = "\<lambda>r. r\<lparr>title := trim x, description := d,
                                             status := column_of st, updated_at := now\<rparr>"])
  have "status ?t = (case body_status b of
                         JStr v \<Rightarrow> if v = [] then status old else Some v
                       | _ \<Rightarrow> status old)"
    using column_of_js_or [OF vs] st by simp
  moreover have "description ?t = (case body_description b of
                              JStr d \<Rightarrow> if trim d = [] then description old else trim d
                            | _ \<Rightarrow> description old)"
    using trim_or_cases [OF d] by simp
  ultimately show ?thesis
    using old x r sel by simp
qed

lemma update_stored_values_example:
  "update 6 1 (request (JStr '' T '') (JStr '' new '') (JStr ''in progress'')) sample_store
     = (Inr (Some \<lparr>task_id = 1, title = ''T'', description = ''new'',
                    status = Some ''in progress'', created_at = 5, updated_at = 6\<rparr>),
        \<lparr>rows = [\<lparr>task_id = 1, title = ''T'', description = ''new'',
                    status = Some ''in progress'', created_at = 5, updated_at = 6\<rparr>], seq = 1\<rparr>) \<and>
   select_by_id 1 sample_store = Some sample_task"
  using update_stored_values
    [of 6 1 "request (JStr '' T '') (JStr '' new '') (JStr ''in progress'')" sample_store
        "Some \<lparr>task_id = 1, title = ''T'', description = ''new'',
                    status = Some ''in progress'', created_at = 5, updated_at = 6\<rparr>"
        "\<lparr>rows = [\<lparr>task_id = 1, title = ''T'', description = ''new'',
                    status = Some ''in progress'', created_at = 5, updated_at = 6\<rparr>], seq = 1\<rparr>"]
  by (simp add: eval_defs)

text \<open>
  C9: a successful update leaves the id and \<open>created_at\<close> of the record as they were
  (indeed the ids and creation times of all rows, position by position), leaves every
  row with another id untouched, and leaves the rowid counter alone.
\<close>

theorem update_frame:
  assumes "update now i b s = (Inr r, s')"
  shows "\<exists>old t. select_by_id i s = Some old \<and> r = Some t \<and>
           task_id t = i \<and> task_id t = task_id old \<and> created_at t = created_at old \<and>
           map task_id (rows s') = map task_id (rows s) \<and>
           map created_at (rows s') = map created_at (rows s) \<and>
           filter (\<lambda>r. task_id r \<noteq> i) (rows s') = filter (\<lambda>r. task_id r \<noteq> i) (rows s) \<and>
           (\<forall>j. j \<noteq> i \<longrightarrow> select_by_id j s' = select_by_id j s) \<and>
           seq s' = seq s"
proof -
  from update_InrD [OF assms] obtain x old d st where
    old: "select_by_id i s = Some old" and
    r: "r = Some (old\<lparr>title := trim x, description := d, status := column_of st,
                          updated_at := now\<rparr>)" and
    s': "s' = s\<lparr>rows := map (\<lambda>r. if task_id r = i
                                      then r\<lparr>title := trim x, description := d,
                                             status := column_of st, updated_at := now\<rparr>
                                      else r) (rows s)\<rparr>"
    by blast
  let ?f = "\<lambda>r. r\<lparr>title := trim x, description := d, status := column_of st, updated_at := now\<rparr>"
  have ids: "map task_id (rows s') = map task_id (rows s)"
    unfolding s' by (induction "rows s" arbitrary: s) auto
  have cre: "map created_at (rows s') = map created_at (rows s)"
    unfolding s' by (induction "rows s" arbitrary: s) auto
  have oth: "filter (\<lambda>r. task_id r \<noteq> i) (rows s') = filter (\<lambda>r. task_id r \<noteq> i) (rows s)"
    unfolding s' by (simp add: filter_map_other [where f = ?f])
  have sel: "\<forall>j. j \<noteq> i \<longrightarrow> select_by_id j s' = select_by_id j s"
    unfolding s' select_by_id_def by (simp add: find_map_other [where f = ?f])
  show ?thesis
    using old r ids cre oth sel select_by_id_mem [OF old] by (simp add: s')
qed

theorem update_frame_witness:
  "update 6 1 (request (JStr ''T'') JUndefined (JStr ''completed'')) two_store
     = (Inr (Some (sample_task\<lparr>title := ''T'', status := Some ''completed'', updated_at := 6\<rparr>)),
        \<lparr>rows = [sample_task\<lparr>title := ''T'', status := Some ''completed'', updated_at := 6\<rparr>,
                  other_task], seq = 2\<rparr>) \<and>
   select_by_id 2 two_store = Some other_task"
  using update_frame
    [of 6 1 "request (JStr ''T'') JUndefined (JStr ''completed'')" two_store
        "Some (sample_task\<lparr>title := ''T'', status := Some ''completed'', updated_at := 6\<rparr>)"
        "\<lparr>rows = [sample_task\<lparr>title := ''T'', status := Some ''completed'', updated_at := 6\<rparr>,
                  other_task], seq = 2\<rparr>"]
  by (simp add: eval_defs)

section \<open>Status round trip\<close>

lemma list_tasks_all: "set (list_tasks None None s) = set (rows s)"
  by (simp add: list_tasks_def order_by_created_at_desc_def status_condition_def
        search_condition_def)

lemma update_status_explicit:
  assumes "v \<in> set statuses"
    and "select_by_id i s = Some old"
    and "body_title b = JStr x" "trim x \<noteq> []"
    and "body_status b = JStr v"
    and "trim_or (body_description b) (description old) = Some d"
  shows "update now i b s
           = (Inr (Some (old\<lparr>title := trim x, description := d, status := Some v,
                               updated_at := now\<rparr>)),
              s\<lparr>rows := map (\<lambda>r. if task_id r = i
                                   then r\<lparr>title := trim x, description := d,
                                          status := Some v, updated_at := now\<rparr>
                                   else r) (rows s)\<rparr>)"
proof -
  have nonempty: "v \<noteq> []"
    using assms(1) by (auto simp: statuses_def)
  have v: "validateTask b = None"
    using assms(1,3,4,5) by (simp add: validateTask_None)
  have st: "js_or (body_status b) (js_of_column (status old)) = JStr v"
    using assms(5) nonempty by (simp add: js_or_def)
  have ex: "\<exists>r\<in>set (rows s). task_id r = i"
    using select_by_id_mem [OF assms(2)] by blast
  have upd: "update_task now i (trim x) d (JStr v) s
               = Inr (s\<lparr>rows := map (\<lambda>r. if task_id r = i
                                   then r\<lparr>title := trim x, description := d,
                                          status := Some v, updated_at := now\<rparr>
                                   else r) (rows s)\<rparr>)"
    using assms(1) by (simp add: update_task_def)
  have sel: "select_by_id i (s\<lparr>rows := map (\<lambda>r. if task_id r = i
                                   then r\<lparr>title := trim x, description := d,
                                          status := Some v, updated_at := now\<rparr>
                                   else r) (rows s)\<rparr>)
               = Some (old\<lparr>title := trim x, description := d, status := Some v,
                             updated_at := now\<rparr>)"
    using assms(2) unfolding select_by_id_def
    by (simp add: find_map_same [where f = "\<lambda>r. r\<lparr>title := trim x, description := d,
                                             status := Some v, updated_at := now\<rparr>"])
  show ?thesis
    unfolding update_def by (simp only: v assms(2,3,6) st upd sel option.case jsval.case sum.case)
qed

lemma updated_rows_status:
  "\<forall>u \<in> set (map (\<lambda>r. if task_id r = i
                            then r\<lparr>title := y, description := e, status := Some v,
                                   updated_at := now\<rparr>
                            else r) xs). task_id u = i \<longrightarrow> status u = Some v"
  by (induction xs) simp_all

text \<open>
  C8, as stated, fails: \<open>in_progress\<close> is not a status of this program, whose three
  values are \<open>pending\<close>, \<open>in progress\<close> and \<open>completed\<close>; an update to it is
  rejected and the record keeps its status.
\<close>

theorem in_progress_underscore_counterexample:
  "update 6 1 (request (JStr ''X'') JUndefined (JStr ''in_progress'')) sample_store
     = (Inl ValidationError, sample_store) \<and>
   map status (list_tasks None None sample_store) = [Some ''pending'']"
  by (simp add: eval_defs list_tasks_def order_by_created_at_desc_def status_condition_def
        search_condition_def)

text \<open>
  C8, amended: for every status \<open>v\<close> of the enumeration \<open>pending\<close>, \<open>in progress\<close>,
  \<open>completed\<close>, an update of an existing task with a non-blank title, a description
  that is a string or absent, and status \<open>v\<close> succeeds, and reading the task back, by
  its id or in the listing, yields status \<open>v\<close>.
\<close>

theorem update_status_read_back:
  assumes "v \<in> set statuses"
    and "select_by_id i s = Some old"
    and "body_title b = JStr x" "trim x \<noteq> []"
    and "body_status b = JStr v"
    and "trim_or (body_description b) (description old) = Some d"
  shows "\<exists>t s'. update now i b s = (Inr (Some t), s') \<and> status t = Some v \<and>
           select_by_id i s' = Some t \<and>
           (\<exists>u \<in> set (list_tasks None None s'). task_id u = i) \<and>
           (\<forall>u \<in> set (list_tasks None None s'). task_id u = i \<longrightarrow> status u = Some v)"
proof -
  let ?t = "old\<lparr>title := trim x, description := d, status := Some v, updated_at := now\<rparr>"
  let ?s' = "s\<lparr>rows := map (\<lambda>r. if task_id r = i
                                   then r\<lparr>title := trim x, description := d,
                                          status := Some v, updated_at := now\<rparr>
                                   else r) (rows s)\<rparr>"
  have u: "update now i b s = (Inr (Some ?t), ?s')"
    by (rule update_status_explicit [OF assms])
  have sel: "select_by_id i ?s' = Some ?t"
    using assms(2) unfolding select_by_id_def
    by (simp add: find_map_same [where f = "\<lambda>r. r\<lparr>title := trim x, description := d,
                                             status := Some v, updated_at := now\<rparr>"])
  have ex: "\<exists>u \<in> set (list_tasks None None ?s'). task_id u = i"
    using select_by_id_mem [OF sel] unfolding list_tasks_all by blast
  have all: "\<forall>u \<in> set (list_tasks None None ?s'). task_id u = i \<longrightarrow> status u = Some v"
    unfolding list_tasks_all using updated_rows_status [where i = i and y = "trim x" and e = d and v = v and now = now and xs = "rows s"] by simp
  have "update now i b s = (Inr (Some ?t), ?s') \<and> status ?t = Some v \<and>
           select_by_id i ?s' = Some ?t \<and>
           (\<exists>u \<in> set (list_tasks None None ?s'). task_id u = i) \<and>
           (\<forall>u \<in> set (list_tasks None None ?s'). task_id u = i \<longrightarrow> status u = Some v)"
    using u sel ex all by simp
  then show ?thesis by blast
qed

theorem update_status_read_back_witness:
  "update 6 1 (request (JStr ''X'') JUndefined (JStr ''in progress'')) sample_store
     = (Inr (Some (sample_task\<lparr>status := Some ''in progress'', updated_at := 6\<rparr>)),
        \<lparr>rows = [sample_task\<lparr>status := Some ''in progress'', updated_at := 6\<rparr>], seq = 1\<rparr>) \<and>
   map status (list_tasks None None
      \<lparr>rows = [sample_task\<lparr>status := Some ''in progress'', updated_at := 6\<rparr>], seq = 1\<rparr>)
     = [Some ''in progress'']"
  using update_status_read_back
    [of "''in progress''" 1 sample_store sample_task
        "request (JStr ''X'') JUndefined (JStr ''in progress'')" "''X''" "''old''" 6]
  by (simp add: eval_defs list_tasks_def order_by_created_at_desc_def status_condition_def
        search_condition_def)

section \<open>The empty status\<close>

lemma update_explicit:
  assumes "body_title b = JStr x" "trim x \<noteq> []"
    and "\<not> truthy (body_status b) \<or> body_status b \<in> set (map JStr statuses)"
    and "select_by_id i s = Some old"
    and "trim_or (body_description b) (description old) = Some d"
    and "st = js_or (body_status b) (js_of_column (status old))"
    and "check_status st"
  shows "update now i b s
           = (Inr (Some (old\<lparr>title := trim x, description := d, status := column_of st,
                               updated_at := now\<rparr>)),
              s\<lparr>rows := map (\<lambda>r. if task_id r = i
                                   then r\<lparr>title := trim x, description := d,
                                          status := column_of st, updated_at := now\<rparr>
                                   else r) (rows s)\<rparr>)"
proof -
  have v: "validateTask b = None"
    using assms(1-3) by (auto simp: validateTask_None)
  have upd: "update_task now i (trim x) d st s
               = Inr (s\<lparr>rows := map (\<lambda>r. if task_id r = i
                                   then r\<lparr>title := trim x, description := d,
                                          status := column_of st, updated_at := now\<rparr>
                                   else r) (rows s)\<rparr>)"
    using assms(7) by (simp add: update_task_def)
  have sel: "select_by_id i (s\<lparr>rows := map (\<lambda>r. if task_id r = i
                                   then r\<lparr>title := trim x, description := d,
                                          status := column_of st, updated_at := now\<rparr>
                                   else r) (rows s)\<rparr>)
               = Some (old\<lparr>title := trim x, description := d, status := column_of st,
                             updated_at := now\<rparr>)"
    using assms(4) unfolding select_by_id_def
    by (simp add: find_map_same [where f = "\<lambda>r. r\<lparr>title := trim x, description := d,
                                             status := column_of st, updated_at := now\<rparr>"])
  show ?thesis
    unfolding update_def
    by (simp only: v assms(1,4,5) assms(6) [symmetric] upd sel option.case jsval.case sum.case)
qed

lemma column_of_js_of_column: "column_of (js_of_column c) = c"
  by (cases c) simp_all

text \<open>
  C10: a request with a non-blank title whose status is the empty string passes
  \<open>validateTask\<close>. On create the empty string is kept (the default \<open>pending\<close> is for
  an absent status), the INSERT is refused by the CHECK constraint, and the answer is a
  500, not a 400, with the table unchanged. On update of an existing task, whose stored
  status is \<open>NULL\<close> or one of the three values, the record keeps the status it had.
\<close>

theorem empty_status_passes_validation:
  assumes "body_title b = JStr x" "trim x \<noteq> []" "body_status b = JStr ''''"
  shows "validateTask b = None \<and>
         insert_task now (trim x) d (body_status b) s = Inl DatabaseError \<and>
         (\<exists>e. create now b s = (Inl e, s) \<and> http_status e = Some 500) \<and>
         (trim_or (body_description b) [] \<noteq> None \<longrightarrow> create now b s = (Inl DatabaseError, s)) \<and>
         (\<forall>old. select_by_id i s = Some old \<and>
                trim_or (body_description b) (description old) \<noteq> None \<and>
                check_status (js_of_column (status old)) \<longrightarrow>
                (\<exists>t s'. update now i b s = (Inr (Some t), s') \<and> status t = status old))"
proof (intro conjI allI impI)
  show v: "validateTask b = None"
    using assms by (simp add: validateTask_None)
  show ins: "insert_task now (trim x) d (body_status b) s = Inl DatabaseError"
    using assms(3) by (simp add: insert_task_def statuses_def)
  have ins': "\<And>d. insert_task now (trim x) d (JStr '''') s = Inl DatabaseError"
    by (simp add: insert_task_def statuses_def)
  show "\<exists>e. create now b s = (Inl e, s) \<and> http_status e = Some 500"
    using v assms ins'
    by (cases "trim_or (body_description b) []") (simp_all add: create_def)
  show "create now b s = (Inl DatabaseError, s)" if "trim_or (body_description b) [] \<noteq> None"
    using that v assms ins' by (auto simp: create_def)
next
  fix old
  assume a: "select_by_id i s = Some old \<and>
             trim_or (body_description b) (description old) \<noteq> None \<and>
             check_status (js_of_column (status old))"
  then obtain d' where d': "trim_or (body_description b) (description old) = Some d'"
    by blast
  have st: "js_of_column (status old) = js_or (body_status b) (js_of_column (status old))"
    using assms(3) by (simp add: js_or_def)
  have c: "check_status (js_of_column (status old))"
    using a by blast
  have "update now i b s
           = (Inr (Some (old\<lparr>title := trim x, description := d',
                               status := column_of (js_of_column (status old)),
                               updated_at := now\<rparr>)),
              s\<lparr>rows := map (\<lambda>r. if task_id r = i
                                   then r\<lparr>title := trim x, description := d',
                                          status := column_of (js_of_column (status old)),
                                          updated_at := now\<rparr>
                                   else r) (rows s)\<rparr>)"
    using assms a
    by (intro update_explicit [OF assms(1,2) _ _ d' st c]) simp_all
  then show "\<exists>t s'. update now i b s = (Inr (Some t), s') \<and> status t = status old"
    by (simp add: column_of_js_of_column)
qed

theorem empty_status_passes_validation_witness:
  "validateTask (request (JStr ''T'') (JStr ''d'') (JStr '''')) = None \<and>
   create 6 (request (JStr ''T'') (JStr ''d'') (JStr '''')) sample_store
     = (Inl DatabaseError, sample_store) \<and>
   http_status DatabaseError = Some 500 \<and>
   update 6 1 (request (JStr ''T'') (JStr ''d'') (JStr '''')) sample_store
     = (Inr (Some (sample_task\<lparr>title := ''T'', description := ''d'', updated_at := 6\<rparr>)),
        \<lparr>rows = [sample_task\<lparr>title := ''T'', description := ''d'', updated_at := 6\<rparr>],
          seq = 1\<rparr>) \<and>
   status (sample_task\<lparr>title := ''T'', description := ''d'', updated_at := 6\<rparr>)
     = status sample_task"
  using empty_status_passes_validation
    [of "request (JStr ''T'') (JStr ''d'') (JStr '''')" "''T''" 6 "''d''" sample_store 1]
  by (simp add: eval_defs)

section \<open>Delete\<close>

lemma find_None_filter:
  "find (\<lambda>t. task_id t = i) xs = None \<Longrightarrow> filter (\<lambda>r. task_id r \<noteq> i) xs = xs"
  by (induction xs) (auto split: if_splits)

lemma find_filter_removed: "find (\<lambda>t. task_id t = i) (filter (\<lambda>r. task_id r \<noteq> i) xs) = None"
  by (induction xs) auto

lemma find_filter_other:
  "j \<noteq> i \<Longrightarrow> find (\<lambda>t. task_id t = j) (filter (\<lambda>r. task_id r \<noteq> i) xs)
                 = find (\<lambda>t. task_id t = j) xs"
  by (induction xs) auto

lemma map_update_absent:
  "\<forall>t \<in> set xs. task_id t \<noteq> i \<Longrightarrow> map (\<lambda>r. if task_id r = i then f r else r) xs = xs"
  by (induction xs) auto

lemma create_explicit:
  assumes "body_title b = JStr x" "trim x \<noteq> []"
    and "body_status b = JUndefined"
    and "trim_or (body_description b) [] = Some d"
    and "last_rowid s < max_rowid"
  shows "create now b s
           = (Inr (Some \<lparr>task_id = last_rowid s + 1, title = trim x, description = d,
                          status = Some ''pending'', created_at = now, updated_at = now\<rparr>),
              \<lparr>rows = rows s @ [\<lparr>task_id = last_rowid s + 1, title = trim x, description = d,
                          status = Some ''pending'', created_at = now, updated_at = now\<rparr>],
                seq = last_rowid s + 1\<rparr>)"
proof -
  obtain t s' where c: "create now b s = (Inr (Some t), s')"
    using create_succeeds [OF assms(1,2) _ assms(4,5)] assms(3) by blast
  from create_InrD [OF c] assms show ?thesis
    unfolding c by auto
qed

text \<open>
  C4: deleting an id no row has answers not-found and returns the table as it was;
  deleting an existing id answers with the row as it was before the DELETE and leaves
  no row with that id, all other rows staying in place. After creating \<open>X\<close>, updating
  it to \<open>Y\<close> and deleting it, on any table with a rowid left, the rows are those of
  the start and the payload of the delete has title \<open>Y\<close>.
\<close>

theorem delete_removes_record:
  "(select_by_id i s = None \<longrightarrow>
      delete i s = (Inl NotFoundError, s) \<and> http_status NotFoundError = Some 404) \<and>
   (\<forall>old. select_by_id i s = Some old \<longrightarrow>
      (\<exists>s'. delete i s = (Inr old, s') \<and> select_by_id i s' = None \<and>
            rows s' = filter (\<lambda>r. task_id r \<noteq> i) (rows s) \<and>
            (\<forall>j. j \<noteq> i \<longrightarrow> select_by_id j s' = select_by_id j s))) \<and>
   (last_rowid s < max_rowid \<longrightarrow>
      (\<exists>a s1 a' s2 s3.
         create t1 (request (JStr ''X'') JUndefined JUndefined) s = (Inr (Some a), s1) \<and>
         update t2 (task_id a) (request (JStr ''Y'') JUndefined JUndefined) s1
           = (Inr (Some a'), s2) \<and>
         delete (task_id a) s2 = (Inr a', s3) \<and>
         title a = ''X'' \<and> title a' = ''Y'' \<and> rows s3 = rows s \<and>
         length (rows s3) + 1 = length (rows s2)))"
proof (intro conjI allI impI)
  assume "select_by_id i s = None"
  then show "delete i s = (Inl NotFoundError, s)"
    by (simp add: delete_def)
next
  show "http_status NotFoundError = Some 404"
    by simp
next
  fix old
  assume old: "select_by_id i s = Some old"
  have other: "\<forall>j. j \<noteq> i \<longrightarrow> select_by_id j (delete_task i s) = select_by_id j s"
  proof (intro allI impI)
    fix j :: int
    assume "j \<noteq> i"
    then show "select_by_id j (delete_task i s) = select_by_id j s"
      by (simp add: select_by_id_def delete_task_def find_filter_other)
  qed
  have "delete i s = (Inr old, delete_task i s) \<and> select_by_id i (delete_task i s) = None \<and>
        rows (delete_task i s) = filter (\<lambda>r. task_id r \<noteq> i) (rows s)"
    using old by (simp add: delete_def select_by_id_def delete_task_def find_filter_removed)
  with other show "\<exists>s'. delete i s = (Inr old, s') \<and> select_by_id i s' = None \<and>
            rows s' = filter (\<lambda>r. task_id r \<noteq> i) (rows s) \<and>
            (\<forall>j. j \<noteq> i \<longrightarrow> select_by_id j s' = select_by_id j s)"
    by blast
next
  assume room: "last_rowid s < max_rowid"
  let ?i = "last_rowid s + 1"
  let ?a = "\<lparr>task_id = ?i, title = ''X'', description = [], status = Some ''pending'',
              created_at = t1, updated_at = t1\<rparr>"
  let ?s1 = "\<lparr>rows = rows s @ [?a], seq = ?i\<rparr>"
  let ?a' = "?a\<lparr>title := ''Y'', description := [], status := Some ''pending'', updated_at := t2\<rparr>"
  let ?s2 = "\<lparr>rows = rows s @ [?a'], seq = ?i\<rparr>"
  let ?s3 = "\<lparr>rows = rows s, seq = ?i\<rparr>"
  let ?bX = "request (JStr ''X'') JUndefined JUndefined"
  let ?bY = "request (JStr ''Y'') JUndefined JUndefined"
  have tX: "trim ''X'' = ''X''" and tY: "trim ''Y'' = ''Y''"
    by (simp_all add: trim_def js_whitespace_def)
  have fresh: "\<forall>t \<in> set (rows s). task_id t \<noteq> ?i"
    using last_rowid_row by fastforce
  have c: "create t1 ?bX s = (Inr (Some ?a), ?s1)"
    using create_explicit [where b = ?bX and x = "''X''" and d = "[]" and s = s and now = t1] room
    by (simp add: request_def tX)
  have sel1: "select_by_id ?i ?s1 = Some ?a"
    unfolding select_by_id_def
    by (simp only: store.simps) (rule find_snoc_new [OF fresh], simp)
  have "update t2 ?i ?bY ?s1
          = (Inr (Some (?a\<lparr>title := trim ''Y'', description := [],
                            status := column_of (JStr ''pending''), updated_at := t2\<rparr>)),
             ?s1\<lparr>rows := map (\<lambda>r. if task_id r = ?i
                                   then r\<lparr>title := trim ''Y'', description := [],
                                          status := column_of (JStr ''pending''),
                                          updated_at := t2\<rparr>
                                   else r) (rows ?s1)\<rparr>)"
    by (rule update_explicit [OF _ _ _ sel1]) (simp_all add: request_def tY js_or_def statuses_def)
  moreover have "map (\<lambda>r. if task_id r = ?i
                          then r\<lparr>title := trim ''Y'', description := [],
                                 status := column_of (JStr ''pending''), updated_at := t2\<rparr>
                          else r) (rows s) = rows s"
    using fresh by (rule map_update_absent)
  ultimately have u: "update t2 ?i ?bY ?s1 = (Inr (Some ?a'), ?s2)"
    by (simp add: tY)
  have sel2: "select_by_id ?i ?s2 = Some ?a'"
    unfolding select_by_id_def
    by (simp only: store.simps) (rule find_snoc_new [OF fresh], simp)
  have flt: "filter (\<lambda>r. task_id r \<noteq> ?i) (rows s) = rows s"
    using fresh by (simp only: filter_id_conv)
  have d: "delete ?i ?s2 = (Inr ?a', ?s3)"
    unfolding delete_def by (simp only: sel2 option.case) (simp add: delete_task_def flt)
  have "create t1 (request (JStr ''X'') JUndefined JUndefined) s = (Inr (Some ?a), ?s1) \<and>
         update t2 (task_id ?a) (request (JStr ''Y'') JUndefined JUndefined) ?s1
           = (Inr (Some ?a'), ?s2) \<and>
         delete (task_id ?a) ?s2 = (Inr ?a', ?s3) \<and>
         title ?a = ''X'' \<and> title ?a' = ''Y'' \<and> rows ?s3 = rows s \<and>
         length (rows ?s3) + 1 = length (rows ?s2)"
    using c u d by simp
  then show "\<exists>a s1 a' s2 s3.
         create t1 (request (JStr ''X'') JUndefined JUndefined) s = (Inr (Some a), s1) \<and>
         update t2 (task_id a) (request (JStr ''Y'') JUndefined JUndefined) s1
           = (Inr (Some a'), s2) \<and>
         delete (task_id a) s2 = (Inr a', s3) \<and>
         title a = ''X'' \<and> title a' = ''Y'' \<and> rows s3 = rows s \<and>
         length (rows s3) + 1 = length (rows s2)"
    by blast
qed

theorem delete_removes_record_witness:
  "delete 7 two_store = (Inl NotFoundError, two_store) \<and>
   delete 1 two_store = (Inr sample_task, \<lparr>rows = [other_task], seq = 2\<rparr>) \<and>
   create 5 (request (JStr ''X'') JUndefined JUndefined) empty_store
     = (Inr (Some \<lparr>task_id = 1, title = ''X'', description = [], status = Some ''pending'',
                    created_at = 5, updated_at = 5\<rparr>),
        \<lparr>rows = [\<lparr>task_id = 1, title = ''X'', description = [], status = Some ''pending'',
                    created_at = 5, updated_at = 5\<rparr>], seq = 1\<rparr>) \<and>
   update 6 1 (request (JStr ''Y'') JUndefined JUndefined)
        \<lparr>rows = [\<lparr>task_id = 1, title = ''X'', description = [], status = Some ''pending'',
                    created_at = 5, updated_at = 5\<rparr>], seq = 1\<rparr>
     = (Inr (Some \<lparr>task_id = 1, title = ''Y'', description = [], status = Some ''pending'',
                    created_at = 5, updated_at = 6\<rparr>),
        \<lparr>rows = [\<lparr>task_id = 1, title = ''Y'', description = [], status = Some ''pending'',
                    created_at = 5, updated_at = 6\<rparr>], seq = 1\<rparr>) \<and>
   delete 1 \<lparr>rows = [\<lparr>task_id = 1, title = ''Y'', description = [], status = Some ''pending'',
                    created_at = 5, updated_at = 6\<rparr>], seq = 1\<rparr>
     = (Inr \<lparr>task_id = 1, title = ''Y'', description = [], status = Some ''pending'',
                    created_at = 5, updated_at = 6\<rparr>,
        \<lparr>rows = [], seq = 1\<rparr>)"
  using delete_removes_record [of 7 two_store 5 6] delete_removes_record [of 1 empty_store 5 6]
  by (simp add: eval_defs)

section \<open>List order\<close>

lemma foldr_max_absorb: "\<forall>x \<in> set xs. x \<le> (a::int) \<Longrightarrow> foldr max xs a = a"
  by (induction xs) auto

lemma created_row:
  assumes "create now b s = (Inr (Some t), s')"
  shows "task_id t = last_rowid s + 1 \<and> created_at t = now \<and> rows s' = rows s @ [t] \<and>
         last_rowid s' = task_id t"
proof -
  from create_InrD [OF assms] have t: "task_id t = last_rowid s + 1" "created_at t = now"
    and r: "rows s' = rows s @ [t]" and q: "seq s' = last_rowid s + 1"
    by auto
  have "\<forall>x \<in> set (map task_id (rows s')). x \<le> seq s'"
    using last_rowid_row [of _ s] t(1) by (auto simp: r q) fastforce
  then have "last_rowid s' = seq s'"
    unfolding last_rowid_def by (rule foldr_max_absorb)
  with t r q show ?thesis by simp
qed

lemma order_by_created_at_desc_sorted:
  "sorted_wrt (\<lambda>a b. created_at b \<le> created_at a) (order_by_created_at_desc ts)"
proof -
  have "sorted (map (\<lambda>t. - int (created_at t)) (order_by_created_at_desc ts))"
    unfolding order_by_created_at_desc_def by (rule sorted_sort_key)
  then show ?thesis
    by (simp add: sorted_map)
qed

text \<open>
  C5, as stated, fails: time stamps have a resolution of one second, and three tasks
  created within the same second are listed in the order of their creation. When the
  clock is set back between two creations, the earlier task is listed first.
\<close>

theorem same_second_order_counterexample:
  "map title (list_tasks None None (three_created 5 5 5)) = [''A'', ''B'', ''C''] \<and>
   map title (list_tasks None None (three_created 7 5 6)) = [''A'', ''C'', ''B'']"
  by (simp add: three_created_def eval_defs list_tasks_def order_by_created_at_desc_def
        status_condition_def search_condition_def)

text \<open>
  C5, amended: every listing is ordered by \<open>created_at\<close>, newest first; and for every
  sequence of successful creations A, then B, then C, each in a later second than the
  one before, the listing returns the three in the order C, B, A.
\<close>

theorem list_newest_first:
  "sorted_wrt (\<lambda>a b. created_at b \<le> created_at a) (list_tasks st q s) \<and>
   (create tA bA s = (Inr (Some a), s1) \<and> create tB bB s1 = (Inr (Some b), s2) \<and>
    create tC bC s2 = (Inr (Some c), s3) \<and> tA < tB \<and> tB < tC \<longrightarrow>
      filter (\<lambda>t. task_id t \<in> {task_id a, task_id b, task_id c}) (list_tasks None None s3)
        = [c, b, a])"
proof (intro conjI impI)
  show "sorted_wrt (\<lambda>a b. created_at b \<le> created_at a) (list_tasks st q s)"
    unfolding list_tasks_def by (rule order_by_created_at_desc_sorted)
next
  assume h: "create tA bA s = (Inr (Some a), s1) \<and> create tB bB s1 = (Inr (Some b), s2) \<and>
    create tC bC s2 = (Inr (Some c), s3) \<and> tA < tB \<and> tB < tC"
  note ca = created_row [of tA bA s a s1] and cb = created_row [of tB bB s1 b s2]
    and cc = created_row [of tC bC s2 c s3]
  from h ca cb cc have ids: "task_id a = last_rowid s + 1" "task_id b = last_rowid s + 2"
      "task_id c = last_rowid s + 3"
    and times: "created_at a = tA" "created_at b = tB" "created_at c = tC"
    and rws: "rows s3 = rows s @ [a, b, c]"
    by simp_all
  let ?P = "\<lambda>t. task_id t \<in> {task_id a, task_id b, task_id c}"
  have "task_id t \<notin> {task_id a, task_id b, task_id c}" if "t \<in> set (rows s)" for t
    using last_rowid_row [OF that] ids by simp
  then have old: "filter ?P (rows s) = []"
    by (simp add: filter_empty_conv)
  have new: "filter ?P [a, b, c] = [a, b, c]"
    by simp
  have "filter ?P (list_tasks None None s3)
          = sort_key (\<lambda>t. - int (created_at t)) (filter ?P (rows s3))"
    by (simp add: list_tasks_def order_by_created_at_desc_def status_condition_def
          search_condition_def filter_sort)
  also have "filter ?P (rows s3) = [a, b, c]"
    unfolding rws filter_append old new by simp
  also have "sort_key (\<lambda>t. - int (created_at t)) [a, b, c] = [c, b, a]"
    using h times by simp
  finally show "filter ?P (list_tasks None None s3) = [c, b, a]" .
qed

theorem list_newest_first_witness:
  "create 5 (request (JStr ''A'') JUndefined JUndefined) empty_store
     = (Inr (Some \<lparr>task_id = 1, title = ''A'', description = [], status = Some ''pending'',
                    created_at = 5, updated_at = 5\<rparr>),
        \<lparr>rows = [\<lparr>task_id = 1, title = ''A'', description = [], status = Some ''pending'',
                    created_at = 5, updated_at = 5\<rparr>], seq = 1\<rparr>) \<and>
   create 6 (request (JStr ''B'') JUndefined JUndefined)
        \<lparr>rows = [\<lparr>task_id = 1, title = ''A'', description = [], status = Some ''pending'',
                    created_at = 5, updated_at = 5\<rparr>], seq = 1\<rparr>
     = (Inr (Some \<lparr>task_id = 2, title = ''B'', description = [], status = Some ''pending'',
                    created_at = 6, updated_at = 6\<rparr>),
        \<lparr>rows = [\<lparr>task_id = 1, title = ''A'', description = [], status = Some ''pending'',
                    created_at = 5, updated_at = 5\<rparr>,
                  \<lparr>task_id = 2, title = ''B'', description = [], status = Some ''pending'',
                    created_at = 6, updated_at = 6\<rparr>], seq = 2\<rparr>) \<and>
   create 7 (request (JStr ''C'') JUndefined JUndefined)
        \<lparr>rows = [\<lparr>task_id = 1, title = ''A'', description = [], status = Some ''pending'',
                    created_at = 5, updated_at = 5\<rparr>,
                  \<lparr>task_id = 2, title = ''B'', description = [], status = Some ''pending'',
                    created_at = 6, updated_at = 6\<rparr>], seq = 2\<rparr>
     = (Inr (Some \<lparr>task_id = 3, title = ''C'', description = [], status = Some ''pending'',
                    created_at = 7, updated_at = 7\<rparr>), three_created 5 6 7) \<and>
   list_tasks None None (three_created 5 6 7)
     = [\<lparr>task_id = 3, title = ''C'', description = [], status = Some ''pending'',
          created_at = 7, updated_at = 7\<rparr>,
        \<lparr>task_id = 2, title = ''B'', description = [], status = Some ''pending'',
          created_at = 6, updated_at = 6\<rparr>,
        \<lparr>task_id = 1, title = ''A'', description = [], status = Some ''pending'',
          created_at = 5, updated_at = 5\<rparr>]"
  using list_newest_first
    [where s = empty_store and tA = 5 and tB = 6 and tC = 7
       and bA = "request (JStr ''A'') JUndefined JUndefined"
       and bB = "request (JStr ''B'') JUndefined JUndefined"
       and bC = "request (JStr ''C'') JUndefined JUndefined"
       and a = "\<lparr>task_id = 1, title = ''A'', description = [], status = Some ''pending'',
                    created_at = 5, updated_at = 5\<rparr>"
       and b = "\<lparr>task_id = 2, title = ''B'', description = [], status = Some ''pending'',
                    created_at = 6, updated_at = 6\<rparr>"
       and c = "\<lparr>task_id = 3, title = ''C'', description = [], status = Some ''pending'',
                    created_at = 7, updated_at = 7\<rparr>"
       and ?s1.0 = "\<lparr>rows = [\<lparr>task_id = 1, title = ''A'', description = [], status = Some ''pending'',
                    created_at = 5, updated_at = 5\<rparr>], seq = 1\<rparr>"
       and ?s2.0 = "\<lparr>rows = [\<lparr>task_id = 1, title = ''A'', description = [], status = Some ''pending'',
                    created_at = 5, updated_at = 5\<rparr>,
                  \<lparr>task_id = 2, title = ''B'', description = [], status = Some ''pending'',
                    created_at = 6, updated_at = 6\<rparr>], seq = 2\<rparr>"
       and ?s3.0 = "three_created 5 6 7" and st = None and q = None]
  by (simp add: three_created_def eval_defs list_tasks_def order_by_created_at_desc_def
        status_condition_def search_condition_def)

section \<open>LIKE patterns\<close>

lemma patternCompare_percent:
  "patternCompare (CHR ''%'' # p) x \<longleftrightarrow> (\<exists>a b. x = a @ b \<and> patternCompare p b)"
proof (induction x)
  case Nil
  then show ?case by simp
next
  case (Cons c cs)
  have "(\<exists>a b. c # cs = a @ b \<and> patternCompare p b) \<longleftrightarrow> patternCompare p (c # cs) \<or> (\<exists>a b. cs = a @ b \<and> patternCompare p b)"
    by (auto simp: Cons_eq_append_conv)
  with Cons show ?case by simp
qed

lemma split_head:
  "(\<exists>m b. c # cs = m @ b \<and> map f m = f k # map f ks \<and> P b)
     \<longleftrightarrow> f k = f c \<and> (\<exists>m b. cs = m @ b \<and> map f m = map f ks \<and> P b)"
proof
  assume "\<exists>m b. c # cs = m @ b \<and> map f m = f k # map f ks \<and> P b"
  then obtain m b where m: "c # cs = m @ b" "map f m = f k # map f ks" "P b"
    by (elim exE conjE)
  show "f k = f c \<and> (\<exists>m b. cs = m @ b \<and> map f m = map f ks \<and> P b)"
  proof (cases m)
    case Nil
    with m(2) show ?thesis by simp
  next
    case (Cons h m')
    with m(1,2) have "h = c" "cs = m' @ b" "f h = f k" "map f m' = map f ks"
      by simp_all
    with m(3) have *: "f k = f c" "cs = m' @ b" "map f m' = map f ks" "P b"
      by simp_all
    show ?thesis
    proof (intro conjI exI)
      show "f k = f c" by (rule *)
      show "cs = m' @ b" by (rule *)
      show "map f m' = map f ks" by (rule *)
      show "P b" by (rule *)
    qed
  qed
next
  assume "f k = f c \<and> (\<exists>m b. cs = m @ b \<and> map f m = map f ks \<and> P b)"
  then obtain m b where *: "f k = f c" "cs = m @ b" "map f m = map f ks" "P b"
    by (elim exE conjE)
  show "\<exists>m b. c # cs = m @ b \<and> map f m = f k # map f ks \<and> P b"
  proof (intro conjI exI)
    show "c # cs = (c # m) @ b" using * by simp
    show "map f (c # m) = f k # map f ks" using * by simp
    show "P b" by (rule *)
  qed
qed

lemma patternCompare_literal:
  assumes "CHR ''%'' \<notin> set q" "CHR ''_'' \<notin> set q"
  shows "patternCompare (q @ p) x \<longleftrightarrow>
           (\<exists>m b. x = m @ b \<and> map sqlite_lower m = map sqlite_lower q \<and> patternCompare p b)"
  using assms
proof (induction q arbitrary: x)
  case Nil
  then show ?case by simp
next
  case (Cons k ks)
  from Cons.prems have k: "k \<noteq> CHR ''%''" "k \<noteq> CHR ''_''"
    and ks: "CHR ''%'' \<notin> set ks" "CHR ''_'' \<notin> set ks"
    by auto
  show ?case
  proof (cases x)
    case Nil
    with k show ?thesis by simp
  next
    case (Cons c cs)
    have "patternCompare ((k # ks) @ p) (c # cs) \<longleftrightarrow> sqlite_lower k = sqlite_lower c \<and> patternCompare (ks @ p) cs"
      using k by simp
    also have "\<dots> \<longleftrightarrow> sqlite_lower k = sqlite_lower c \<and>
        (\<exists>m b. cs = m @ b \<and> map sqlite_lower m = map sqlite_lower ks \<and> patternCompare p b)"
      using Cons.IH [OF ks] by simp
    also have "\<dots> \<longleftrightarrow> (\<exists>m b. c # cs = m @ b \<and>
        map sqlite_lower m = sqlite_lower k # map sqlite_lower ks \<and> patternCompare p b)"
      by (rule split_head [symmetric])
    finally show ?thesis using Cons by simp
  qed
qed

lemma patternCompare_any: "patternCompare ''%'' x"
  by (simp add: patternCompare_percent)

lemma patternCompare_contains:
  assumes "CHR ''%'' \<notin> set q" "CHR ''_'' \<notin> set q"
  shows "patternCompare (''%'' @ q @ ''%'') x \<longleftrightarrow>
           (\<exists>a m b. x = a @ m @ b \<and> map sqlite_lower m = map sqlite_lower q)"
proof -
  have "patternCompare (''%'' @ q @ ''%'') x \<longleftrightarrow> (\<exists>a y. x = a @ y \<and> patternCompare (q @ ''%'') y)"
    using patternCompare_percent [of "q @ ''%''" x] by simp
  also have "\<dots> \<longleftrightarrow> (\<exists>a y. x = a @ y \<and>
      (\<exists>m b. y = m @ b \<and> map sqlite_lower m = map sqlite_lower q \<and> patternCompare ''%'' b))"
    using patternCompare_literal [OF assms, of "''%''"] by simp
  also have "\<dots> \<longleftrightarrow> (\<exists>a m b. x = a @ m @ b \<and> map sqlite_lower m = map sqlite_lower q)"
    using patternCompare_any by blast
  finally show ?thesis .
qed

lemma starts_with_iff: "starts_with x n \<longleftrightarrow> (\<exists>b. x = n @ b)"
  by (induction x n rule: starts_with.induct) auto

lemma str_includes_iff: "str_includes x n \<longleftrightarrow> (\<exists>a b. x = a @ n @ b)"
proof (induction x)
  case Nil
  then show ?case by auto
next
  case (Cons c cs)
  have "(\<exists>a b. c # cs = a @ n @ b) \<longleftrightarrow> (\<exists>b. c # cs = n @ b) \<or> (\<exists>a b. cs = a @ n @ b)"
  proof
    assume "\<exists>a b. c # cs = a @ n @ b"
    then obtain a b where e: "c # cs = a @ n @ b"
      by blast
    show "(\<exists>b. c # cs = n @ b) \<or> (\<exists>a b. cs = a @ n @ b)"
    proof (cases a)
      case Nil
      with e show ?thesis by auto
    next
      case (Cons h a')
      with e have "cs = a' @ n @ b" by simp
      then show ?thesis by blast
    qed
  next
    assume "(\<exists>b. c # cs = n @ b) \<or> (\<exists>a b. cs = a @ n @ b)"
    then show "\<exists>a b. c # cs = a @ n @ b"
    proof
      assume "\<exists>b. c # cs = n @ b"
      then obtain b where "c # cs = [] @ n @ b" by auto
      then show ?thesis by blast
    next
      assume "\<exists>a b. cs = a @ n @ b"
      then obtain a b where "c # cs = (c # a) @ n @ b" by auto
      then show ?thesis by blast
    qed
  qed
  with Cons show ?case
    by (simp add: starts_with_iff)
qed

lemma str_includes_map:
  "str_includes (map f x) (map f n) \<longleftrightarrow> (\<exists>a m b. x = a @ m @ b \<and> map f m = map f n)"
proof
  assume "str_includes (map f x) (map f n)"
  then obtain a' b' where "map f x = a' @ map f n @ b'"
    unfolding str_includes_iff by blast
  from this [THEN map_eq_append_conv [THEN iffD1]]
  obtain a y where x: "x = a @ y" and y: "map f y = map f n @ b'"
    by metis
  from y [THEN map_eq_append_conv [THEN iffD1]]
  obtain m b where "y = m @ b" "map f m = map f n"
    by metis
  with x show "\<exists>a m b. x = a @ m @ b \<and> map f m = map f n"
    by blast
next
  assume "\<exists>a m b. x = a @ m @ b \<and> map f m = map f n"
  then obtain a m b where "x = a @ m @ b" "map f m = map f n"
    by blast
  then have "map f x = map f a @ map f n @ map f b"
    by simp
  then show "str_includes (map f x) (map f n)"
    unfolding str_includes_iff by blast
qed

lemma upto_nul_id: "CHR 0x00 \<notin> set z \<Longrightarrow> upto_nul z = z"
  unfolding upto_nul_def by (induction z) auto

lemma like_contains_lowered:
  assumes "CHR ''%'' \<notin> set q" "CHR ''_'' \<notin> set q" "CHR 0x00 \<notin> set q" "CHR 0x00 \<notin> set x"
  shows "like (''%'' @ q @ ''%'') x \<longleftrightarrow> str_includes (map sqlite_lower x) (map sqlite_lower q)"
proof -
  have "CHR 0x00 \<notin> set (''%'' @ q @ ''%'')"
    using assms(3) by simp
  then have "like (''%'' @ q @ ''%'') x = patternCompare (''%'' @ q @ ''%'') x"
    using assms(4) by (simp add: like_def upto_nul_id)
  then show ?thesis
    by (simp only: patternCompare_contains [OF assms(1,2)] str_includes_map)
qed

text \<open>
  A search term or a text with U+0000 in it is cut there: the term \<open>d\<close>, U+0000, \<open>zzz\<close>
  gives the pattern \<open>%d\<close>, which the description \<open>old\<close> matches, and in the text \<open>a\<close>,
  U+0000, \<open>b\<close> only \<open>a\<close> is searched.
\<close>

lemma like_stops_at_nul:
  "like (''%'' @ [CHR ''d'', CHR 0x00, CHR ''z'', CHR ''z'', CHR ''z''] @ ''%'') ''old'' \<and>
   \<not> like (''%'' @ ''b'' @ ''%'') [CHR ''a'', CHR 0x00, CHR ''b''] \<and>
   list_tasks None (Some [CHR ''d'', CHR 0x00, CHR ''z'', CHR ''z'', CHR ''z'']) sample_store
     = [sample_task]"
  by code_simp

section \<open>Case folding\<close>

lemma char_eq_nat: "a = b \<longleftrightarrow> (of_char a :: nat) = of_char b"
  by simp

lemma of_char_sqlite_lower:
  "(of_char (sqlite_lower c) :: nat)
     = (if 65 \<le> (of_char c :: nat) \<and> (of_char c :: nat) \<le> 90 then of_char c + 32 else of_char c)"
  by (simp add: sqlite_lower_def Let_def)

lemma of_char_toLowerCase_char:
  "(of_char (toLowerCase_char c) :: nat)
     = (if (65 \<le> (of_char c :: nat) \<and> (of_char c :: nat) \<le> 90) \<or>
           (192 \<le> (of_char c :: nat) \<and> (of_char c :: nat) \<le> 222 \<and> (of_char c :: nat) \<noteq> 215)
        then of_char c + 32 else of_char c)"
  by (simp add: toLowerCase_char_def Let_def)

lemma fold_agree:
  assumes "(of_char c :: nat) < 128"
  shows "toLowerCase_char x = toLowerCase_char c \<longleftrightarrow> sqlite_lower x = sqlite_lower c"
  unfolding char_eq_nat [of "toLowerCase_char x"] char_eq_nat [of "sqlite_lower x"]
    of_char_sqlite_lower of_char_toLowerCase_char
  using assms by (auto split: if_splits)

lemma map_fold_agree:
  assumes "\<forall>c \<in> set q. (of_char c :: nat) < 128"
  shows "map toLowerCase_char m = map toLowerCase_char q \<longleftrightarrow>
         map sqlite_lower m = map sqlite_lower q"
  using assms
proof (induction q arbitrary: m)
  case Nil
  then show ?case by simp
next
  case (Cons c cs)
  show ?case
  proof (cases m)
    case Nil
    then show ?thesis by simp
  next
    case (Cons x xs)
    with Cons.IH [of xs] Cons.prems fold_agree [of c x] show ?thesis
      by simp
  qed
qed

lemma includes_fold_agree:
  assumes "\<forall>c \<in> set q. (of_char c :: nat) < 128"
  shows "str_includes (toLowerCase x) (toLowerCase q) \<longleftrightarrow>
         str_includes (map sqlite_lower x) (map sqlite_lower q)"
  unfolding toLowerCase_def str_includes_map map_fold_agree [OF assms] ..

section \<open>Server-side filtering\<close>

lemma str_includes_Nil: "str_includes x []"
  by (induction x) simp_all

lemma search_condition_spec:
  assumes "\<forall>x. q = Some x \<longrightarrow> CHR ''%'' \<notin> set x \<and> CHR ''_'' \<notin> set x \<and> CHR 0x00 \<notin> set x"
    and "CHR 0x00 \<notin> set (title t)" "CHR 0x00 \<notin> set (description t)"
  shows "search_condition q t = spec_search_filter q t"
proof (cases q)
  case None
  then show ?thesis
    by (simp add: search_condition_def spec_search_filter_def)
next
  case (Some x)
  show ?thesis
  proof (cases "x = []")
    case True
    with Some show ?thesis
      by (simp add: search_condition_def spec_search_filter_def contains_ci_def str_includes_Nil)
  next
    case False
    have x: "CHR ''%'' \<notin> set x" "CHR ''_'' \<notin> set x" "CHR 0x00 \<notin> set x"
      using assms(1) Some by simp_all
    have "like (''%'' @ x @ ''%'') (title t) = contains_ci (title t) x"
      and "like (''%'' @ x @ ''%'') (description t) = contains_ci (description t) x"
      unfolding contains_ci_def
      by (rule like_contains_lowered [OF x assms(2)], rule like_contains_lowered [OF x assms(3)])
    with Some False show ?thesis
      by (simp only: search_condition_def spec_search_filter_def option.case if_True
            not_False_eq_True)
  qed
qed

lemma status_condition_spec:
  assumes "p \<noteq> Some []"
  shows "status_condition p t = spec_status_filter p t"
  using assms by (cases p) (auto simp: status_condition_def spec_status_filter_def)

text \<open>
  C6 says that every list request returns exactly the tasks that satisfy both filters,
  the search term being matched as a case-insensitive substring of the title or of the
  description. The code pastes the term into the LIKE pattern without escaping it, so
  \<open>%\<close> and \<open>_\<close> in the term act as wildcards: \<^verbatim>\<open>GET /tasks?search=_\<close> lists the sample
  task, though neither its title \<open>X\<close> nor its description \<open>old\<close> contains an underscore.
\<close>

theorem search_underscore_lists_task_without_it:
  "list_tasks None (Some ''_'') sample_store = [sample_task] \<and>
   \<not> spec_search_filter (Some ''_'') sample_task"
  by code_simp

text \<open>
  Where no wildcard is involved the listing is the one the contract describes: for a
  search term free of \<open>%\<close>, \<open>_\<close> and U+0000, over titles and descriptions free of
  U+0000, and a status parameter that is not the empty string, the result is, newest
  first, exactly the tasks whose status equals the parameter (all of them when it is
  absent or \<open>all\<close>) and whose title or description contains the term, the case of ASCII
  letters ignored. An empty status parameter filters nothing.
\<close>

lemma list_tasks_plain_search:
  assumes "p \<noteq> Some []"
    and "\<forall>x. q = Some x \<longrightarrow> CHR ''%'' \<notin> set x \<and> CHR ''_'' \<notin> set x \<and> CHR 0x00 \<notin> set x"
    and "\<forall>t \<in> set (rows s). CHR 0x00 \<notin> set (title t) \<and> CHR 0x00 \<notin> set (description t)"
  shows "list_tasks p q s
           = order_by_created_at_desc
               (filter (\<lambda>t. spec_status_filter p t \<and> spec_search_filter q t) (rows s))"
proof -
  have "filter (\<lambda>t. status_condition p t \<and> search_condition q t) (rows s)
          = filter (\<lambda>t. spec_status_filter p t \<and> spec_search_filter q t) (rows s)"
  proof (rule filter_cong [OF refl])
    fix t
    assume "t \<in> set (rows s)"
    with assms(3) have nul: "CHR 0x00 \<notin> set (title t)" "CHR 0x00 \<notin> set (description t)"
      by simp_all
    show "(status_condition p t \<and> search_condition q t)
            = (spec_status_filter p t \<and> spec_search_filter q t)"
      by (simp only: status_condition_spec [OF assms(1)] search_condition_spec [OF assms(2) nul])
  qed
  then show ?thesis
    by (simp only: list_tasks_def)
qed

lemma list_tasks_empty_status: "list_tasks (Some []) q s = list_tasks None q s"
  by (simp add: list_tasks_def status_condition_def)

lemma list_tasks_milk:
  "list_tasks None (Some ''milk'') milk_store = [dog_task, milk_task] \<and>
   list_tasks (Some ''completed'') None milk_store = [dog_task] \<and>
   list_tasks (Some ''completed'') (Some ''book'') milk_store = []"
  by code_simp

section \<open>Client-side filtering\<close>

lemma filteredTasks_filter:
  "filteredTasks tasks sf q
     = filter (\<lambda>task. (sf = ''all'' \<or> status task = Some sf) \<and>
                     (q = [] \<or> str_includes (toLowerCase (title task)) (toLowerCase q) \<or>
                               str_includes (toLowerCase (description task)) (toLowerCase q)))
         tasks"
  by (simp add: filteredTasks_def Let_def conj_commute)

lemma client_condition_server:
  assumes "sf \<noteq> []"
    and "\<forall>c \<in> set q. (of_char c :: nat) < 128 \<and> c \<noteq> CHR ''%'' \<and> c \<noteq> CHR ''_'' \<and> c \<noteq> CHR 0x00"
    and "CHR 0x00 \<notin> set (title t)" "CHR 0x00 \<notin> set (description t)"
  shows "((sf = ''all'' \<or> status t = Some sf) \<and>
          (q = [] \<or> str_includes (toLowerCase (title t)) (toLowerCase q) \<or>
                    str_includes (toLowerCase (description t)) (toLowerCase q)))
         \<longleftrightarrow> status_condition (Some sf) t \<and> search_condition (Some q) t"
proof -
  have ascii: "\<forall>c \<in> set q. (of_char c :: nat) < 128"
    and wild: "CHR ''%'' \<notin> set q" "CHR ''_'' \<notin> set q" "CHR 0x00 \<notin> set q"
    using assms(2) by auto
  have st: "status_condition (Some sf) t \<longleftrightarrow> sf = ''all'' \<or> status t = Some sf"
    using assms(1) by (simp add: status_condition_def)
  have "like (''%'' @ q @ ''%'') (title t)
          \<longleftrightarrow> str_includes (toLowerCase (title t)) (toLowerCase q)"
    and "like (''%'' @ q @ ''%'') (description t)
          \<longleftrightarrow> str_includes (toLowerCase (description t)) (toLowerCase q)"
    by (simp_all only: like_contains_lowered [OF wild assms(3)]
          like_contains_lowered [OF wild assms(4)] includes_fold_agree [OF ascii])
  then have se: "search_condition (Some q) t \<longleftrightarrow>
      q = [] \<or> str_includes (toLowerCase (title t)) (toLowerCase q) \<or>
                str_includes (toLowerCase (description t)) (toLowerCase q)"
    by (simp only: search_condition_def option.case) simp
  show ?thesis
    unfolding st se ..
qed

text \<open>
  C7 says that the client's filtered view selects the same tasks as the server's listing
  for the same status and search arguments. The client matches the search text
  literally, the server pastes it unescaped into its LIKE pattern: for the search text
  \<open>_\<close> the client's view of the sample table is empty while the server's listing holds
  the sample task.
\<close>

theorem client_and_server_differ_on_underscore:
  "filteredTasks (list_tasks None None sample_store) ''all'' ''_'' = [] \<and>
   list_tasks (Some ''all'') (Some ''_'') sample_store = [sample_task]"
  by code_simp

text \<open>
  Where no wildcard is involved the two agree: for a status filter value other than the
  empty string, a search text of ASCII characters other than \<open>%\<close>, \<open>_\<close> and U+0000, and
  titles and descriptions free of U+0000, the client's view of the fetched collection
  is the server's listing for the same arguments.
\<close>

lemma client_view_is_server_listing:
  assumes "sf \<noteq> []"
    and "\<forall>c \<in> set q. (of_char c :: nat) < 128 \<and> c \<noteq> CHR ''%'' \<and> c \<noteq> CHR ''_'' \<and> c \<noteq> CHR 0x00"
    and "\<forall>t \<in> set (rows s). CHR 0x00 \<notin> set (title t) \<and> CHR 0x00 \<notin> set (description t)"
  shows "filteredTasks (list_tasks None None s) sf q = list_tasks (Some sf) (Some q) s"
proof -
  let ?client = "\<lambda>task. (sf = ''all'' \<or> status task = Some sf) \<and>
                     (q = [] \<or> str_includes (toLowerCase (title task)) (toLowerCase q) \<or>
                               str_includes (toLowerCase (description task)) (toLowerCase q))"
  let ?server = "\<lambda>t. status_condition (Some sf) t \<and> search_condition (Some q) t"
  have all: "list_tasks None None s = order_by_created_at_desc (rows s)"
    by (simp add: list_tasks_def status_condition_def search_condition_def)
  have "filter ?client (rows s) = filter ?server (rows s)"
  proof (rule filter_cong [OF refl])
    fix t
    assume "t \<in> set (rows s)"
    with assms(3) have "CHR 0x00 \<notin> set (title t)" "CHR 0x00 \<notin> set (description t)"
      by simp_all
    then show "?client t = ?server t"
      by (rule client_condition_server [OF assms(1,2)])
  qed
  then have "sort_key (\<lambda>t. - int (created_at t)) (filter ?client (rows s))
               = sort_key (\<lambda>t. - int (created_at t)) (filter ?server (rows s))"
    by (rule arg_cong)
  then have "filter ?client (order_by_created_at_desc (rows s)) = list_tasks (Some sf) (Some q) s"
    unfolding list_tasks_def order_by_created_at_desc_def by (simp only: filter_sort)
  then show ?thesis
    by (simp only: filteredTasks_filter all)
qed

lemma client_view_milk:
  "filteredTasks (list_tasks None None milk_store) ''completed'' ''MILK'' = [dog_task] \<and>
   list_tasks (Some ''completed'') (Some ''MILK'') milk_store = [dog_task] \<and>
   filteredTasks (list_tasks None None milk_store) ''all'' ''milk'' = [dog_task, milk_task] \<and>
   list_tasks (Some ''all'') (Some ''milk'') milk_store = [dog_task, milk_task]"
  by code_simp

section \<open>Preservation of the table invariant\<close>

lemma create_failure_keeps_store: "create now b s = (Inl e, s') \<Longrightarrow> s' = s"
  by (auto simp: create_def Let_def split: option.splits jsval.splits sum.splits)

lemma update_failure_keeps_store: "update now i b s = (Inl e, s') \<Longrightarrow> s' = s"
  by (auto simp: update_def split: option.splits jsval.splits sum.splits)

lemma last_rowid_invariant: "store_invariant s \<Longrightarrow> last_rowid s = seq s"
  unfolding last_rowid_def store_invariant_def
  by (intro foldr_max_absorb) (auto simp: list_all_iff)

lemma sorted_wrt_snoc_less:
  "sorted_wrt (<) xs \<Longrightarrow> \<forall>x \<in> set xs. x < (y::int) \<Longrightarrow> sorted_wrt (<) (xs @ [y])"
  by (simp add: sorted_wrt_append)

lemma check_status_column: "check_status st \<Longrightarrow> check_status (js_of_column (column_of st))"
  by (cases st) simp_all

lemma store_invariant_create:
  assumes "store_invariant s"
  shows "store_invariant (snd (create now b s))"
proof (cases "fst (create now b s)")
  case (Inl e)
  then have "create now b s = (Inl e, snd (create now b s))"
    by (metis prod.collapse)
  from create_failure_keeps_store [OF this] assms show ?thesis
    by simp
next
  case (Inr r)
  then have c: "create now b s = (Inr r, snd (create now b s))"
    by (metis prod.collapse)
  from create_InrD [OF c] obtain x d st where
    x: "trim x \<noteq> []" and st: "check_status st" and
    s': "snd (create now b s)
           = \<lparr>rows = rows s @ [\<lparr>task_id = last_rowid s + 1, title = trim x, description = d,
                     status = column_of st, created_at = now, updated_at = now\<rparr>],
                 seq = last_rowid s + 1\<rparr>"
    by blast
  have l: "last_rowid s = seq s"
    using assms by (rule last_rowid_invariant)
  have col: "check_status (js_of_column (column_of st))"
    using st by (rule check_status_column)
  have below: "\<forall>i \<in> set (map task_id (rows s)). i < seq s + 1"
    using assms by (auto simp: store_invariant_def list_all_iff)
  have "sorted_wrt (<) (map task_id (rows s) @ [seq s + 1])"
    using assms below by (intro sorted_wrt_snoc_less) (simp_all add: store_invariant_def)
  moreover have "list_all (\<lambda>t. 0 < task_id t \<and> task_id t \<le> seq s + 1 \<and> title t \<noteq> [] \<and>
                     check_status (js_of_column (status t))) (rows s)"
    using assms by (auto simp: store_invariant_def list_all_iff)
  ultimately show ?thesis
    using assms x col unfolding s' l by (simp add: store_invariant_def)
qed

lemma map_task_id_update:
  assumes "\<And>r. task_id (f r) = task_id r"
  shows "map task_id (map (\<lambda>r. if task_id r = i then f r else r) xs) = map task_id xs"
  by (induction xs) (simp_all add: assms)

lemma store_invariant_update:
  assumes "store_invariant s"
  shows "store_invariant (snd (update now i b s))"
proof (cases "fst (update now i b s)")
  case (Inl e)
  then have "update now i b s = (Inl e, snd (update now i b s))"
    by (metis prod.collapse)
  from update_failure_keeps_store [OF this] assms show ?thesis
    by simp
next
  case (Inr r)
  then have u: "update now i b s = (Inr r, snd (update now i b s))"
    by (metis prod.collapse)
  from update_InrD [OF u] obtain x d st where
    x: "trim x \<noteq> []" and st: "check_status st" and
    s': "snd (update now i b s)
           = s\<lparr>rows := map (\<lambda>r. if task_id r = i
                                      then r\<lparr>title := trim x, description := d,
                                             status := column_of st, updated_at := now\<rparr>
                                      else r) (rows s)\<rparr>"
    by blast
  let ?f = "\<lambda>r. if task_id r = i
                 then r\<lparr>title := trim x, description := d, status := column_of st,
                        updated_at := now\<rparr>
                 else r"
  have ids: "map task_id (map ?f (rows s)) = map task_id (rows s)"
    by (rule map_task_id_update) simp
  have col: "check_status (js_of_column (column_of st))"
    using st by (rule check_status_column)
  have srt: "sorted_wrt (<) (map task_id (map ?f (rows s)))"
    unfolding ids using assms by (simp add: store_invariant_def)
  have "list_all (\<lambda>t. 0 < task_id t \<and> task_id t \<le> seq s \<and> title t \<noteq> [] \<and>
                     check_status (js_of_column (status t))) (map ?f (rows s))"
    using assms x col by (auto simp: store_invariant_def list_all_iff)
  with srt show ?thesis
    using assms unfolding s' by (simp add: store_invariant_def)
qed

lemma store_invariant_delete:
  assumes "store_invariant s"
  shows "store_invariant (snd (delete i s))"
proof -
  have "sorted_wrt (<) (map task_id (filter (\<lambda>r. task_id r \<noteq> i) (rows s)))"
    using assms by (simp add: store_invariant_def sorted_wrt_map sorted_wrt_filter)
  then show ?thesis
    using assms
    by (auto simp: delete_def delete_task_def store_invariant_def list_all_iff
          split: option.splits)
qed

text \<open>
  The empty table satisfies the table invariant, and create, update and delete keep it,
  whatever the request and whether they succeed or fail.
\<close>

theorem store_invariant_preserved:
  "store_invariant empty_store \<and>
   (store_invariant s \<longrightarrow>
      store_invariant (snd (create now b s)) \<and>
      store_invariant (snd (update now i b s)) \<and>
      store_invariant (snd (delete i s)))"
  using store_invariant_create [of s now b] store_invariant_update [of s now i b]
    store_invariant_delete [of s i]
  by (simp add: store_invariant_def empty_store_def)

theorem store_invariant_preserved_witness:
  "store_invariant milk_store \<and>
   store_invariant (snd (create 9 (request (JStr ''New'') JNull JNull) milk_store)) \<and>
   store_invariant (snd (update 9 2 (request (JStr ''Dog'') JUndefined (JStr '''')) milk_store)) \<and>
   store_invariant (snd (delete 2 milk_store))"
proof -
  have "store_invariant milk_store"
    by code_simp
  with store_invariant_preserved [of milk_store 9 "request (JStr ''New'') JNull JNull" 2]
    store_invariant_preserved [of milk_store 9 "request (JStr ''Dog'') JUndefined (JStr '''')" 2]
  show ?thesis
    by simp
qed

end
